theory Spec2Isabelle
  imports Main "HOL-Library.Char_ord" "HOL-Library.List_Lexorder"
begin

section \<open>Set Reconciler: \<open>obsfile_params_check.diff\<close>\<close>

text \<open>
  Parameter names are Python \<open>str\<close> values, modelled as \<open>string\<close>. Python compares
  strings lexicographically by code point; \<open>Char_ord\<close> and \<open>List_Lexorder\<close> give
  \<open>string\<close> exactly this linear order.

  The first loop of \<open>diff\<close> runs over \<open>params_declared\<close> and appends each parameter
  either to \<open>used\<close> or to \<open>not_used\<close>; the second runs over \<open>params_used\<close> and
  appends to \<open>not_declared\<close>. The accumulators are the lists the source mutates
  with \<open>append\<close>. The returned dict is an association list in insertion order.
\<close>

fun diff_declared_loop ::
  "string list \<Rightarrow> string list \<Rightarrow> string list \<Rightarrow> string list \<Rightarrow> string list \<times> string list"
where
  "diff_declared_loop [] params_used used not_used = (used, not_used)"
| "diff_declared_loop (param # rest) params_used used not_used =
     (if param \<in> set params_used
      then diff_declared_loop rest params_used (used @ [param]) not_used
      else diff_declared_loop rest params_used used (not_used @ [param]))"

fun diff_used_loop :: "string list \<Rightarrow> string list \<Rightarrow> string list \<Rightarrow> string list" where
  "diff_used_loop [] params_declared not_declared = not_declared"
| "diff_used_loop (param # rest) params_declared not_declared =
     (if param \<notin> set params_declared
      then diff_used_loop rest params_declared (not_declared @ [param])
      else diff_used_loop rest params_declared not_declared)"

definition diff :: "string list \<Rightarrow> string list \<Rightarrow> (string \<times> string list) list" where
  "diff params_declared params_used =
     (case diff_declared_loop params_declared params_used [] [] of
        (used, not_used) \<Rightarrow>
          [(''used'', used),
           (''not_used'', not_used),
           (''not_declared'', diff_used_loop params_used params_declared [])])"

subsection \<open>The loops as filters\<close>

lemma diff_declared_loop_filter:
  "diff_declared_loop ds us used not_used =
     (used @ filter (\<lambda>p. p \<in> set us) ds, not_used @ filter (\<lambda>p. p \<notin> set us) ds)"
  by (induction ds arbitrary: used not_used) simp_all

lemma diff_used_loop_filter:
  "diff_used_loop us ds not_declared = not_declared @ filter (\<lambda>p. p \<notin> set ds) us"
  by (induction us arbitrary: not_declared) simp_all

lemma diff_filter:
  "diff ds us =
     [(''used'', filter (\<lambda>p. p \<in> set us) ds),
      (''not_used'', filter (\<lambda>p. p \<notin> set us) ds),
      (''not_declared'', filter (\<lambda>p. p \<notin> set ds) us)]"
  by (simp add: diff_def diff_declared_loop_filter diff_used_loop_filter)

lemma diff_example:
  "diff [''a'', ''b'', ''c''] [''b'', ''c'', ''d''] =
     [(''used'', [''b'', ''c'']), (''not_used'', [''a'']), (''not_declared'', [''d''])]"
  by (simp add: diff_filter)

text \<open>
  C1 (as amended). \<open>diff\<close> returns a dict with exactly the keys \<open>used\<close>,
  \<open>not_used\<close> and \<open>not_declared\<close>. As sets, the three buckets are
  \<open>declared \<inter> used\<close>, \<open>declared - used\<close> and \<open>used - declared\<close>; they are pairwise
  disjoint and their union is \<open>declared \<union> used\<close>. A bucket has no duplicate entries
  whenever the input list it is drawn from has none (\<open>used\<close> and \<open>not_used\<close> from
  \<open>declared\<close>, \<open>not_declared\<close> from \<open>used\<close>). The example of the specification
  evaluates as stated.
\<close>

theorem diff_partition:
  "\<exists>used not_used not_declared.
     diff declared used_in =
       [(''used'', used), (''not_used'', not_used), (''not_declared'', not_declared)]
     \<and> set used = set declared \<inter> set used_in
     \<and> set not_used = set declared - set used_in
     \<and> set not_declared = set used_in - set declared
     \<and> set used \<union> set not_used \<union> set not_declared = set declared \<union> set used_in
     \<and> set used \<inter> set not_used = {}
     \<and> set used \<inter> set not_declared = {}
     \<and> set not_used \<inter> set not_declared = {}
     \<and> (distinct declared \<longrightarrow> distinct used \<and> distinct not_used)
     \<and> (distinct used_in \<longrightarrow> distinct not_declared)
     \<and> diff [''a'', ''b'', ''c''] [''b'', ''c'', ''d''] =
         [(''used'', [''b'', ''c'']), (''not_used'', [''a'']), (''not_declared'', [''d''])]"
proof -
  let ?u = "filter (\<lambda>p. p \<in> set used_in) declared"
  let ?n = "filter (\<lambda>p. p \<notin> set used_in) declared"
  let ?d = "filter (\<lambda>p. p \<notin> set declared) used_in"
  have shape: "diff declared used_in =
      [(''used'', ?u), (''not_used'', ?n), (''not_declared'', ?d)]"
    by (rule diff_filter)
  have s1: "set ?u = set declared \<inter> set used_in" by auto
  have s2: "set ?n = set declared - set used_in" by auto
  have s3: "set ?d = set used_in - set declared" by auto
  have un: "set ?u \<union> set ?n \<union> set ?d = set declared \<union> set used_in" by auto
  have d1: "set ?u \<inter> set ?n = {}" by auto
  have d2: "set ?u \<inter> set ?d = {}" by auto
  have d3: "set ?n \<inter> set ?d = {}" by auto
  have nd1: "distinct declared \<longrightarrow> distinct ?u \<and> distinct ?n" by simp
  have nd2: "distinct used_in \<longrightarrow> distinct ?d" by simp
  show ?thesis
    apply (rule exI [of _ ?u], rule exI [of _ ?n], rule exI [of _ ?d])
    apply (intro conjI)
    apply (rule shape, rule s1, rule s2, rule s3, rule un, rule d1, rule d2, rule d3)
    apply (rule nd1, rule nd2, rule diff_example)
    done
qed

theorem diff_partition_witness:
  "distinct [''a'', ''b'', ''c''] \<and> distinct [''b'', ''c'', ''d'']
   \<and> (\<exists>used not_used not_declared.
     diff [''a'', ''b'', ''c''] [''b'', ''c'', ''d''] =
       [(''used'', used), (''not_used'', not_used), (''not_declared'', not_declared)]
     \<and> distinct used \<and> distinct not_used \<and> distinct not_declared)"
  using diff_partition [of "[''a'', ''b'', ''c'']" "[''b'', ''c'', ''d'']"]
  by (simp add: diff_filter)

text \<open>
  The claim as written (no bucket ever contains duplicate entries) fails when an
  input list repeats a name: \<open>diff\<close> copies, it never deduplicates.
\<close>

theorem diff_duplicates_counterexample:
  "map_of (diff [''a'', ''a''] []) ''not_used'' = Some [''a'', ''a'']
   \<and> \<not> distinct [''a'', ''a'']"
  by (simp add: diff_filter)

text \<open>
  C5 (as amended). Each bucket keeps the order of the list it is drawn from:
  \<open>used\<close> and \<open>not_used\<close> are subsequences of \<open>declared\<close>, \<open>not_declared\<close> is a
  subsequence of \<open>used\<close>; \<open>diff\<close> does not sort. Hence a bucket is sorted ascending
  whenever its source list is.
\<close>

theorem diff_keeps_order:
  "\<exists>used not_used not_declared.
     diff declared used_in =
       [(''used'', used), (''not_used'', not_used), (''not_declared'', not_declared)]
     \<and> used = filter (\<lambda>p. p \<in> set used_in) declared
     \<and> not_used = filter (\<lambda>p. p \<notin> set used_in) declared
     \<and> not_declared = filter (\<lambda>p. p \<notin> set declared) used_in
     \<and> (sorted declared \<longrightarrow> sorted used \<and> sorted not_used)
     \<and> (sorted used_in \<longrightarrow> sorted not_declared)"
  by (simp add: diff_filter sorted_wrt_filter)

theorem diff_keeps_order_witness:
  "sorted [''a'', ''b'', ''c''] \<and> sorted [''b'', ''c'', ''d'']
   \<and> (\<exists>used not_used not_declared.
     diff [''a'', ''b'', ''c''] [''b'', ''c'', ''d''] =
       [(''used'', used), (''not_used'', not_used), (''not_declared'', not_declared)]
     \<and> sorted used \<and> sorted not_used \<and> sorted not_declared)"
  using diff_keeps_order [of "[''a'', ''b'', ''c'']" "[''b'', ''c'', ''d'']"]
  by (simp add: diff_filter less_eq_char_def)

theorem diff_unsorted_counterexample:
  "map_of (diff [''b'', ''a''] []) ''not_used'' = Some [''b'', ''a'']
   \<and> \<not> sorted [''b'', ''a'']"
  by (simp add: diff_filter less_eq_char_def)

section \<open>Python values shared by the components\<close>

text \<open>
  A raised exception is modelled by the names of its class and of all its base
  classes (an \<open>except C\<close> clause catches it exactly when \<open>C\<close> is among them) and by
  its message. Every function of the model that can raise returns
  \<open>exception + 'a\<close>, with \<open>Inl\<close> for the exception that leaves the function.
\<close>

datatype exception = PyExc (classes: "string list") (message: string)

definition isinstance :: "exception \<Rightarrow> string \<Rightarrow> bool" where
  "isinstance e cls = (cls \<in> set (classes e))"

definition IndexError :: "string \<Rightarrow> exception" where
  "IndexError msg = PyExc [''IndexError'', ''LookupError'', ''Exception'', ''BaseException''] msg"

definition ValueError :: "string \<Rightarrow> exception" where
  "ValueError msg = PyExc [''ValueError'', ''Exception'', ''BaseException''] msg"

definition TypeError :: "string \<Rightarrow> exception" where
  "TypeError msg = PyExc [''TypeError'', ''Exception'', ''BaseException''] msg"

definition AttributeError :: "string \<Rightarrow> exception" where
  "AttributeError msg = PyExc [''AttributeError'', ''Exception'', ''BaseException''] msg"

definition UnknownObjectException :: "string \<Rightarrow> exception" where
  "UnknownObjectException msg =
     PyExc [''UnknownObjectException'', ''GithubException'', ''Exception'', ''BaseException''] msg"

text \<open>
  Text is a \<open>string\<close> whose characters stand for code points below 256.
  \<open>str_split s sep maxsplit\<close> is \<open>s.split(sep, maxsplit)\<close> for a one-character
  separator, \<open>None\<close> standing for no limit; \<open>cur\<close> is the piece being read.
\<close>

fun split_acc :: "char \<Rightarrow> nat option \<Rightarrow> string \<Rightarrow> string \<Rightarrow> string list" where
  "split_acc sep maxsplit cur [] = [cur]"
| "split_acc sep maxsplit cur (x # xs) =
     (if x = sep \<and> maxsplit \<noteq> Some 0
      then cur # split_acc sep (map_option (\<lambda>n. n - 1) maxsplit) [] xs
      else split_acc sep maxsplit (cur @ [x]) xs)"

definition str_split :: "string \<Rightarrow> char \<Rightarrow> nat option \<Rightarrow> string list" where
  "str_split s sep maxsplit = split_acc sep maxsplit [] s"

text \<open>
  \<open>str.splitlines\<close>: the line boundaries below code point 256 are \<open>\n\<close>, \<open>\v\<close>,
  \<open>\f\<close>, \<open>\r\<close>, \<open>\x1c\<close>, \<open>\x1d\<close>, \<open>\x1e\<close> and \<open>\x85\<close>; \<open>\r\n\<close> is one boundary, and
  a final boundary does not open an empty last line.
\<close>

definition linebreak :: "char \<Rightarrow> bool" where
  "linebreak c = (c \<in> set [CHR 0x0A, CHR 0x0B, CHR 0x0C, CHR 0x0D,
                            CHR 0x1C, CHR 0x1D, CHR 0x1E, CHR 0x85])"

fun splitlines_acc :: "string \<Rightarrow> string \<Rightarrow> string list" where
  "splitlines_acc cur [] = (if cur = [] then [] else [cur])"
| "splitlines_acc cur [x] = (if linebreak x then [cur] else [cur @ [x]])"
| "splitlines_acc cur (x # y # ys) =
     (if x = CHR 0x0D \<and> y = CHR 0x0A then cur # splitlines_acc [] ys
      else if linebreak x then cur # splitlines_acc [] (y # ys)
      else splitlines_acc (cur @ [x]) (y # ys))"

definition splitlines :: "string \<Rightarrow> string list" where
  "splitlines s = splitlines_acc [] s"

section \<open>Remote Content Accessor: \<open>list_files\<close> and \<open>read_file\<close>\<close>

text \<open>
  The hosting service is a parameter of the model. \<open>g full_name\<close> is
  \<open>self.g.get_repo(full_name)\<close> and \<open>repo directory\<close> is
  \<open>repo.get_contents(directory)\<close>: either raises, or returns one \<open>ContentFile\<close> or a
  list of them. Of a \<open>ContentFile\<close> the code reads \<open>path\<close>, \<open>type\<close> and \<open>content\<close>;
  the field \<open>decoded\<close> holds what \<open>base64.b64decode(content).decode()\<close> evaluates
  to for the file, the decoded text or the exception it raises.
\<close>

record content_file =
  path :: string
  type :: string
  decoded :: "exception + string"

datatype contents = ContentFile content_file | ContentList "content_file list"

type_synonym repository = "string \<Rightarrow> exception + contents"
type_synonym github = "string \<Rightarrow> exception + repository"

text \<open>
  The worklist loop of \<open>list_files\<close>: \<open>contents.pop(0)\<close> takes the head, a
  directory is replaced by its entries at the end of the worklist, anything else
  is appended to \<open>self.__content\<close>. Nothing bounds the loop for an arbitrary
  service, hence the option type: \<open>None\<close> is a loop that does not end.
\<close>

partial_function (option) list_files_loop ::
  "repository \<Rightarrow> content_file list \<Rightarrow> content_file list
     \<Rightarrow> (exception + content_file list) option"
where
  "list_files_loop repo contents content =
     (case contents of
        [] \<Rightarrow> Some (Inr content)
      | file_content # rest \<Rightarrow>
          if type file_content = ''dir''
          then (case repo (path file_content) of
                  Inl e \<Rightarrow> Some (Inl e)
                | Inr (ContentFile f) \<Rightarrow>
                    Some (Inl (TypeError ([CHR 0x27] @ ''ContentFile'' @ [CHR 0x27]
                                       @ '' object is not iterable'')))
                | Inr (ContentList fs) \<Rightarrow> list_files_loop repo (rest @ fs) content)
          else list_files_loop repo rest (content @ [file_content]))"

declare list_files_loop.simps [code]

text \<open>
  \<open>list_files\<close> returns the value it leaves in \<open>self.__content\<close>; the list of
  paths the source returns is \<open>map path\<close> of it.
\<close>

definition list_files :: "github \<Rightarrow> string \<Rightarrow> (exception + content_file list) option" where
  "list_files g path_arg =
     (case str_split path_arg CHR ''/'' (Some 2) of
        user # repository # rest \<Rightarrow>
          (let directory = (case rest of [] \<Rightarrow> [] | d # _ \<Rightarrow> d) in
           case g (user @ ''/'' @ repository) of
             Inl e \<Rightarrow> Some (Inl e)
           | Inr repo \<Rightarrow>
               (case repo directory of
                  Inl e \<Rightarrow> Some (Inl e)
                | Inr (ContentFile f) \<Rightarrow> list_files_loop repo [f] []
                | Inr (ContentList fs) \<Rightarrow> list_files_loop repo fs []))
      | _ \<Rightarrow> Some (Inl (IndexError
                 ([CHR 0x27] @ ''username/repository'' @ [CHR 0x27]
                    @ '' must be included in the path.''))))"

definition read_file :: "github \<Rightarrow> string \<Rightarrow> (exception + string) option" where
  "read_file g path_arg =
     (case list_files g path_arg of
        None \<Rightarrow> None
      | Some (Inl e) \<Rightarrow> Some (Inl e)
      | Some (Inr file_content) \<Rightarrow>
          Some (if length file_content > 1
                then Inl (ValueError ''File is not uniquely specified.'')
                else (case file_content of
                        [] \<Rightarrow> Inl (IndexError ''list index out of range'')
                      | f # _ \<Rightarrow> decoded f)))"

text \<open>
  Two services used to run the model: one that serves single files by their full
  path, and one whose every path is a directory with the given entries.
\<close>

definition files_github :: "(string \<times> string) list \<Rightarrow> github" where
  "files_github files full_name =
     Inr (\<lambda>directory.
        case map_of files (full_name @ ''/'' @ directory) of
          Some text \<Rightarrow>
            Inr (ContentFile \<lparr>path = directory, type = ''file'', decoded = Inr text\<rparr>)
        | None \<Rightarrow> Inl (UnknownObjectException ''404''))"

definition dir_github :: "content_file list \<Rightarrow> github" where
  "dir_github entries full_name = Inr (\<lambda>directory. Inr (ContentList entries))"

section \<open>Declaration Parser: \<open>get_obsparams\<close>\<close>

fun get_obsparams_loop :: "string list list \<Rightarrow> string list \<Rightarrow> string list" where
  "get_obsparams_loop [] params = params"
| "get_obsparams_loop (param_val # rest) params =
     (case param_val of
        k # v # _ \<Rightarrow>
          if v \<noteq> [] then get_obsparams_loop rest (params @ [k])
          else get_obsparams_loop rest params
      | _ \<Rightarrow> get_obsparams_loop rest params)"

definition get_obsparams :: "github \<Rightarrow> string \<Rightarrow> (exception + string list) option" where
  "get_obsparams g path_arg =
     (case read_file g path_arg of
        None \<Rightarrow> None
      | Some (Inl e) \<Rightarrow> Some (Inl e)
      | Some (Inr content) \<Rightarrow>
          Some (Inr (get_obsparams_loop
                       (map (\<lambda>line. str_split line CHR ''='' None) (splitlines content)) [])))"

subsection \<open>Running the accessor\<close>

lemma split_acc_zero: "split_acc sep (Some 0) cur s = [cur @ s]"
  by (induction s arbitrary: cur) simp_all

lemma split_acc_piece:
  "sep \<notin> set u \<Longrightarrow> m \<noteq> Some 0 \<Longrightarrow>
   split_acc sep m cur (u @ sep # rest) =
     (cur @ u) # split_acc sep (map_option (\<lambda>n. n - 1) m) [] rest"
  by (induction u arbitrary: cur) auto

lemma split_acc_last: "sep \<notin> set u \<Longrightarrow> split_acc sep m cur u = [cur @ u]"
  by (induction u arbitrary: cur) auto

lemma str_split_path3:
  "CHR ''/'' \<notin> set u \<Longrightarrow> CHR ''/'' \<notin> set r \<Longrightarrow>
   str_split (u @ CHR ''/'' # r @ CHR ''/'' # d) CHR ''/'' (Some 2) = [u, r, d]"
  by (simp add: str_split_def split_acc_piece split_acc_zero)

lemma list_files_files_github:
  "map_of files (u @ CHR ''/'' # r @ CHR ''/'' # d) = Some text \<Longrightarrow>
   CHR ''/'' \<notin> set u \<Longrightarrow> CHR ''/'' \<notin> set r \<Longrightarrow>
   list_files (files_github files) (u @ CHR ''/'' # r @ CHR ''/'' # d) =
     Some (Inr [\<lparr>path = d, type = ''file'', decoded = Inr text\<rparr>])"
  by (simp add: list_files_def str_split_path3 files_github_def list_files_loop.simps)

lemma read_file_files_github:
  "map_of files (u @ CHR ''/'' # r @ CHR ''/'' # d) = Some text \<Longrightarrow>
   CHR ''/'' \<notin> set u \<Longrightarrow> CHR ''/'' \<notin> set r \<Longrightarrow>
   read_file (files_github files) (u @ CHR ''/'' # r @ CHR ''/'' # d) = Some (Inr text)"
  by (simp add: read_file_def list_files_files_github)

text \<open>
  C8. \<open>read_file\<close> raises \<open>ValueError\<close> whenever the listing of its path holds more
  than one file, raises (an \<open>IndexError\<close>, or the error of the listing itself)
  when no file matches, and evaluates to the decoding of the file when the
  listing holds exactly one; whenever it returns text, the listing held exactly
  one file and the text is that file's.
\<close>

theorem read_file_exactly_one:
  "(\<forall>fs. list_files g p = Some (Inr fs) \<longrightarrow>
      (length fs > 1 \<longrightarrow>
         read_file g p = Some (Inl (ValueError ''File is not uniquely specified.'')))
    \<and> (fs = [] \<longrightarrow> read_file g p = Some (Inl (IndexError ''list index out of range'')))
    \<and> (\<forall>f. fs = [f] \<longrightarrow> read_file g p = Some (decoded f)))
   \<and> (\<forall>e. list_files g p = Some (Inl e) \<longrightarrow> read_file g p = Some (Inl e))
   \<and> (\<forall>text. read_file g p = Some (Inr text) \<longrightarrow>
        (\<exists>f. list_files g p = Some (Inr [f]) \<and> decoded f = Inr text))"
  by (auto simp: read_file_def split: option.splits sum.splits list.splits if_splits)

theorem read_file_exactly_one_witness:
  "list_files (files_github [(''o/r/a.obs'', ''hello'')]) ''o/r/a.obs'' =
     Some (Inr [\<lparr>path = ''a.obs'', type = ''file'', decoded = Inr ''hello''\<rparr>])
   \<and> read_file (files_github [(''o/r/a.obs'', ''hello'')]) ''o/r/a.obs'' = Some (Inr ''hello'')
   \<and> list_files (dir_github []) ''o/r'' = Some (Inr [])
   \<and> read_file (dir_github []) ''o/r'' = Some (Inl (IndexError ''list index out of range''))
   \<and> list_files
         (dir_github [\<lparr>path = ''a'', type = ''file'', decoded = Inr ''x''\<rparr>,
                      \<lparr>path = ''b'', type = ''file'', decoded = Inr ''y''\<rparr>]) ''o/r'' =
       Some (Inr [\<lparr>path = ''a'', type = ''file'', decoded = Inr ''x''\<rparr>,
                  \<lparr>path = ''b'', type = ''file'', decoded = Inr ''y''\<rparr>])
   \<and> read_file
         (dir_github [\<lparr>path = ''a'', type = ''file'', decoded = Inr ''x''\<rparr>,
                      \<lparr>path = ''b'', type = ''file'', decoded = Inr ''y''\<rparr>]) ''o/r'' =
       Some (Inl (ValueError ''File is not uniquely specified.''))
   \<and> list_files (files_github []) ''o/r/a.obs'' = Some (Inl (UnknownObjectException ''404''))
   \<and> read_file (files_github []) ''o/r/a.obs'' = Some (Inl (UnknownObjectException ''404''))"
  using read_file_exactly_one [of "files_github [(''o/r/a.obs'', ''hello'')]" "''o/r/a.obs''"]
    read_file_exactly_one [of "dir_github []" "''o/r''"]
    read_file_exactly_one
      [of "dir_github [\<lparr>path = ''a'', type = ''file'', decoded = Inr ''x''\<rparr>,
                       \<lparr>path = ''b'', type = ''file'', decoded = Inr ''y''\<rparr>]" "''o/r''"]
    read_file_exactly_one [of "files_github []" "''o/r/a.obs''"]
  by (simp add: list_files_def str_split_def files_github_def dir_github_def
        list_files_loop.simps)

subsection \<open>What the declaration parser computes\<close>

lemma get_obsparams_loop_filter:
  "get_obsparams_loop pvs params =
     params @ map hd (filter (\<lambda>pv. case pv of k # v # _ \<Rightarrow> v \<noteq> [] | _ \<Rightarrow> False) pvs)"
  by (induction pvs arbitrary: params) (auto split: list.splits)

lemma split_acc_first:
  "\<exists>ps. split_acc sep None cur s = (cur @ takeWhile (\<lambda>c. c \<noteq> sep) s) # ps"
proof (induction s arbitrary: cur)
  case Nil
  show ?case by simp
next
  case (Cons x xs)
  show ?case
  proof (cases "x = sep")
    case True
    then show ?thesis by simp
  next
    case False
    from Cons [of "cur @ [x]"] obtain ps where
      "split_acc sep None (cur @ [x]) xs = ((cur @ [x]) @ takeWhile (\<lambda>c. c \<noteq> sep) xs) # ps" ..
    with False show ?thesis by simp
  qed
qed

text \<open>
  One line \<open>k=v\<close> (no \<open>=\<close> in \<open>k\<close>) contributes \<open>k\<close> exactly when the text of \<open>v\<close>
  before its first \<open>=\<close> is not empty.
\<close>

lemma get_obsparams_loop_line:
  assumes "CHR ''='' \<notin> set k"
  shows "get_obsparams_loop [str_split (k @ CHR ''='' # v) CHR ''='' None] params =
     (if takeWhile (\<lambda>c. c \<noteq> CHR ''='') v \<noteq> [] then params @ [k] else params)"
proof -
  from split_acc_first [of "CHR ''=''" "[]" v] obtain ps where
    "split_acc CHR ''='' None [] v = takeWhile (\<lambda>c. c \<noteq> CHR ''='') v # ps" by auto
  with assms show ?thesis
    by (simp add: str_split_def split_acc_piece)
qed

lemma get_obsparams_example:
  "get_obsparams
     (files_github
        [(''o/r/a.obs'', ''a=1'' @ [CHR 0x0A] @ ''b='' @ [CHR 0x0A] @ ''c=3'' @ [CHR 0x0A])])
     ''o/r/a.obs'' = Some (Inr [''a'', ''c''])"
  by (simp add: get_obsparams_def read_file_def list_files_def str_split_def
        files_github_def list_files_loop.simps splitlines_def linebreak_def)

text \<open>
  C2. The source calls \<open>line.split("=")\<close>, which splits at every \<open>=\<close>, and tests
  only the piece between the first and the second \<open>=\<close>. A line whose value side
  starts with \<open>=\<close>, such as \<open>k==v\<close>, has the non-empty value side \<open>=v\<close> and yet
  contributes nothing.
\<close>

theorem get_obsparams_value_starting_with_equals:
  "get_obsparams (files_github [(''o/r/a.obs'', ''k==v'')]) ''o/r/a.obs'' = Some (Inr [])"
  by (simp add: get_obsparams_def read_file_def list_files_def str_split_def
        files_github_def list_files_loop.simps splitlines_def)

section \<open>Reference Extractor, literal mode: \<open>params_extract\<close>\<close>

text \<open>
  The patterns the source builds from an escaped trigger are sequences of five
  kinds of items: a literal character, the dot, a character set \<open>[...]\<close>, the
  lazy \<open>.*?\<close> and the lazy capturing group \<open>(.*?)\<close>. No flag is passed to the
  functions of \<open>re\<close>, so the dot matches every character except the newline
  \<open>\n\<close>.

  \<open>re_match adv p cap s\<close> matches the pattern \<open>p\<close> at the start of \<open>s\<close> the way the
  backtracking matcher of \<open>re\<close> does: a lazy item first tries the rest of the
  pattern, and takes one more character only when that fails. The result is the
  text of the group and the input left after the match. The flag \<open>adv\<close> is the
  matcher's \<open>must_advance\<close>: set, it refuses the empty match, so that the search
  backtracks to the first match that consumes a character.
\<close>

datatype re_item = Lit char | In "char list" | Lazy | LazyGroup | Dot

fun re_match ::
  "bool \<Rightarrow> re_item list \<Rightarrow> string \<Rightarrow> string \<Rightarrow> (string \<times> string) option"
where
  "re_match adv [] cap s = (if adv then None else Some (cap, s))"
| "re_match adv (Lit c # p) cap [] = None"
| "re_match adv (Lit c # p) cap (x # xs) = (if x = c then re_match False p cap xs else None)"
| "re_match adv (In cs # p) cap [] = None"
| "re_match adv (In cs # p) cap (x # xs) =
     (if x \<in> set cs then re_match False p cap xs else None)"
| "re_match adv (Lazy # p) cap [] = re_match adv p cap []"
| "re_match adv (Lazy # p) cap (x # xs) =
     (case re_match adv p cap (x # xs) of
        Some r \<Rightarrow> Some r
      | None \<Rightarrow> if x = CHR 0x0A then None else re_match False (Lazy # p) cap xs)"
| "re_match adv (LazyGroup # p) cap [] = re_match adv p cap []"
| "re_match adv (LazyGroup # p) cap (x # xs) =
     (case re_match adv p cap (x # xs) of
        Some r \<Rightarrow> Some r
      | None \<Rightarrow>
          if x = CHR 0x0A then None else re_match False (LazyGroup # p) (cap @ [x]) xs)"
| "re_match adv (Dot # p) cap [] = None"
| "re_match adv (Dot # p) cap (x # xs) =
     (if x = CHR 0x0A then None else re_match False p cap xs)"

text \<open>
  \<open>re.findall\<close> with one group: search from the left; after a match go on behind
  it, otherwise move one character on. After an empty match the next search
  starts at the same position with \<open>must_advance\<close> set. (A match under
  \<open>must_advance\<close> always consumes input, see \<open>re_match_must_advance\<close> below, so
  the branch \<open>[]\<close> is never taken.)
\<close>

function re_findall :: "bool \<Rightarrow> re_item list \<Rightarrow> string \<Rightarrow> string list" where
  "re_findall adv p s =
     (case re_match adv p [] s of
        Some (cap, rest) \<Rightarrow>
          cap # (if length rest < length s then re_findall False p rest
                 else if adv then []
                 else re_findall True p s)
      | None \<Rightarrow> (case s of [] \<Rightarrow> [] | _ # xs \<Rightarrow> re_findall False p xs))"
  by pat_completeness auto
termination
  by (relation "measure (\<lambda>(adv, p, s). 2 * length s + (if adv then 0 else 1))") auto

definition quotes :: "char list" where
  "quotes = [CHR 0x27, CHR 0x22]"

text \<open>
  The pattern \<open>f"{trigger[0]}['\"](.*?)['\"].*?{trigger[1]}"\<close> for a trigger that
  went through \<open>re.escape\<close>: an escaped string matches itself, character by
  character.
\<close>

definition literal_pattern :: "string \<Rightarrow> string \<Rightarrow> re_item list" where
  "literal_pattern prefix suffix =
     map Lit prefix @ [In quotes, LazyGroup, In quotes, Lazy] @ map Lit suffix"

text \<open>
  With \<open>already_escaped\<close> the trigger is regular-expression text of the caller.
  Compiling arbitrary pattern text is the library's business: \<open>re_lib pattern
  content\<close> stands for \<open>re.findall(pattern, content)\<close> on such text (for fragments
  without groups of their own), and may raise. \<open>sorted(list(set(params)))\<close> is
  \<open>sort (remdups params)\<close>: whatever order the set is listed in, sorting it gives
  the one ascending list of its elements.
\<close>

definition params_extract ::
  "github \<Rightarrow> (string \<Rightarrow> string \<Rightarrow> exception + string list) \<Rightarrow> string list \<Rightarrow> string \<Rightarrow> bool
     \<Rightarrow> (exception + string list) option"
where
  "params_extract g re_lib trigger path_arg already_escaped =
     (case read_file g path_arg of
        None \<Rightarrow> None
      | Some (Inl e) \<Rightarrow> Some (Inl e)
      | Some (Inr content) \<Rightarrow>
          Some (case trigger of
                  t0 # t1 # _ \<Rightarrow>
                    (case (if already_escaped
                           then re_lib (t0 @ ''['' @ quotes @ ''](.*?)['' @ quotes @ ''].*?'' @ t1)
                                  content
                           else Inr (re_findall False (literal_pattern t0 t1) content)) of
                       Inl e \<Rightarrow> Inl e
                     | Inr params \<Rightarrow> Inr (sort (remdups params)))
                | _ \<Rightarrow> Inl (IndexError ''list index out of range'')))"

text \<open>A stand-in for the library on pattern text: every pattern is rejected.\<close>

definition no_re_lib :: "string \<Rightarrow> string \<Rightarrow> exception + string list" where
  "no_re_lib pattern content = Inl (PyExc [''error'', ''Exception'', ''BaseException''] pattern)"

text \<open>Another one: every pattern is accepted and finds the given matches.\<close>

definition fixed_re_lib :: "string list \<Rightarrow> string \<Rightarrow> string \<Rightarrow> exception + string list" where
  "fixed_re_lib found pattern content = Inr found"

subsection \<open>What a match of the literal pattern looks like\<close>

declare re_findall.simps [simp del]

lemma re_match_lits:
  "re_match False (map Lit w @ p) cap s =
     (if take (length w) s = w then re_match False p cap (drop (length w) s) else None)"
proof (induction w arbitrary: s)
  case Nil
  show ?case by simp
next
  case (Cons c w)
  show ?case by (cases s) (simp_all add: Cons.IH)
qed

lemma re_match_lits_sound:
  "re_match False (map Lit w @ p) cap s = Some (c, r) \<Longrightarrow>
   \<exists>t. s = w @ t \<and> re_match False p cap t = Some (c, r)"
proof -
  assume m: "re_match False (map Lit w @ p) cap s = Some (c, r)"
  then have tk: "take (length w) s = w" and rest: "re_match False p cap (drop (length w) s) = Some (c, r)"
    by (simp_all add: re_match_lits split: if_splits)
  have "s = w @ drop (length w) s" using tk by (metis append_take_drop_id)
  with rest show ?thesis by (intro exI conjI)
qed

lemma re_match_in_sound:
  "re_match False (In cs # p) cap s = Some (c, r) \<Longrightarrow>
   \<exists>x t. s = x # t \<and> x \<in> set cs \<and> re_match False p cap t = Some (c, r)"
  by (cases s) (simp_all split: if_splits)

lemma re_match_lazy_sound:
  "re_match False (Lazy # p) cap s = Some (c, r) \<Longrightarrow>
   \<exists>gap t. s = gap @ t \<and> CHR 0x0A \<notin> set gap \<and> re_match False p cap t = Some (c, r)"
proof (induction s)
  case Nil
  then have "re_match False p cap [] = Some (c, r)" by (simp split: option.splits)
  then show ?case by simp
next
  case (Cons x xs)
  show ?case
  proof (cases "re_match False p cap (x # xs)")
    case (Some a)
    with Cons.prems have "re_match False p cap (x # xs) = Some (c, r)" by simp
    then have "x # xs = [] @ x # xs \<and> CHR 0x0A \<notin> set [] \<and> re_match False p cap (x # xs) = Some (c, r)"
      by simp
    then show ?thesis by (intro exI)
  next
    case None
    with Cons.prems have nl: "x \<noteq> CHR 0x0A" and m: "re_match False (Lazy # p) cap xs = Some (c, r)"
      by (simp_all split: if_splits)
    from Cons.IH [OF m] obtain gap t where
      "xs = gap @ t" "CHR 0x0A \<notin> set gap" "re_match False p cap t = Some (c, r)" by auto
    with nl have "x # xs = (x # gap) @ t \<and> CHR 0x0A \<notin> set (x # gap) \<and> re_match False p cap t = Some (c, r)"
      by simp
    then show ?thesis by (intro exI)
  qed
qed

lemma re_match_group_sound:
  "re_match False (LazyGroup # p) cap s = Some (c, r) \<Longrightarrow>
   \<exists>n t. s = n @ t \<and> CHR 0x0A \<notin> set n \<and> re_match False p (cap @ n) t = Some (c, r)"
proof (induction s arbitrary: cap)
  case Nil
  then have "re_match False p cap [] = Some (c, r)" by (simp split: option.splits)
  then show ?case by simp
next
  case (Cons x xs)
  show ?case
  proof (cases "re_match False p cap (x # xs)")
    case (Some a)
    with Cons.prems have "re_match False p cap (x # xs) = Some (c, r)" by simp
    then have "x # xs = [] @ x # xs \<and> CHR 0x0A \<notin> set [] \<and> re_match False p (cap @ []) (x # xs) = Some (c, r)"
      by simp
    then show ?thesis by (intro exI)
  next
    case None
    with Cons.prems have nl: "x \<noteq> CHR 0x0A"
      and m: "re_match False (LazyGroup # p) (cap @ [x]) xs = Some (c, r)"
      by (simp_all split: if_splits)
    from Cons.IH [OF m] obtain n t where
      "xs = n @ t" "CHR 0x0A \<notin> set n" "re_match False p ((cap @ [x]) @ n) t = Some (c, r)" by auto
    with nl have "x # xs = (x # n) @ t \<and> CHR 0x0A \<notin> set (x # n)
        \<and> re_match False p (cap @ x # n) t = Some (c, r)"
      by simp
    then show ?thesis by (intro exI)
  qed
qed

lemma literal_pattern_sound:
  assumes "re_match False (literal_pattern prefix suffix) [] s = Some (c, r)"
  shows "\<exists>q1 q2 gap. s = prefix @ [q1] @ c @ [q2] @ gap @ suffix @ r
           \<and> q1 \<in> set quotes \<and> q2 \<in> set quotes
           \<and> CHR 0x0A \<notin> set c \<and> CHR 0x0A \<notin> set gap"
proof -
  from assms have "re_match False (map Lit prefix @ In quotes # LazyGroup # In quotes # Lazy # map Lit suffix) [] s = Some (c, r)"
    by (simp add: literal_pattern_def)
  from re_match_lits_sound [OF this] obtain t1 where
    s1: "s = prefix @ t1"
    and m1: "re_match False (In quotes # LazyGroup # In quotes # Lazy # map Lit suffix) [] t1 = Some (c, r)"
    by auto
  from re_match_in_sound [OF m1] obtain q1 t2 where
    s2: "t1 = q1 # t2" and q1: "q1 \<in> set quotes"
    and m2: "re_match False (LazyGroup # In quotes # Lazy # map Lit suffix) [] t2 = Some (c, r)"
    by auto
  from re_match_group_sound [OF m2] obtain n t3 where
    s3: "t2 = n @ t3" and n: "CHR 0x0A \<notin> set n"
    and m3: "re_match False (In quotes # Lazy # map Lit suffix) ([] @ n) t3 = Some (c, r)"
    by auto
  from re_match_in_sound [OF m3] obtain q2 t4 where
    s4: "t3 = q2 # t4" and q2: "q2 \<in> set quotes"
    and m4: "re_match False (Lazy # map Lit suffix) ([] @ n) t4 = Some (c, r)"
    by auto
  from re_match_lazy_sound [OF m4] obtain gap t5 where
    s5: "t4 = gap @ t5" and gap: "CHR 0x0A \<notin> set gap"
    and m5: "re_match False (map Lit suffix) ([] @ n) t5 = Some (c, r)"
    by auto
  from m5 have "re_match False (map Lit suffix @ []) ([] @ n) t5 = Some (c, r)" by simp
  from re_match_lits_sound [OF this] obtain t6 where
    s6: "t5 = suffix @ t6" and m6: "re_match False [] ([] @ n) t6 = Some (c, r)"
    by auto
  from m6 have c: "c = n" and r: "r = t6" by simp_all
  have "s = prefix @ [q1] @ c @ [q2] @ gap @ suffix @ r"
    by (simp add: s1 s2 s3 s4 s5 s6 c r)
  with q1 q2 n gap c show ?thesis
    by (intro exI [of _ q1] exI [of _ q2] exI [of _ gap]) simp
qed

lemma re_match_rest:
  "re_match adv p cap s = Some (c, r) \<Longrightarrow> \<exists>front. s = front @ r"
proof (induction adv p cap s rule: re_match.induct)
  case (1 adv cap s)
  then show ?case by (simp split: if_splits)
next
  case (3 adv c' p cap x xs)
  then have "\<exists>front. xs = front @ r" by (simp split: if_splits)
  then obtain front where "xs = front @ r" ..
  then have "x # xs = (x # front) @ r" by simp
  then show ?case ..
next
  case (5 adv cs p cap x xs)
  then have "\<exists>front. xs = front @ r" by (simp split: if_splits)
  then obtain front where "xs = front @ r" ..
  then have "x # xs = (x # front) @ r" by simp
  then show ?case ..
next
  case (7 adv p cap x xs)
  show ?case
  proof (cases "re_match adv p cap (x # xs)")
    case (Some a)
    with "7.prems" have "re_match adv p cap (x # xs) = Some (c, r)" by simp
    then show ?thesis by (rule "7.IH"(1))
  next
    case None
    with "7.prems" have nl: "x \<noteq> CHR 0x0A"
      and m: "re_match False (Lazy # p) cap xs = Some (c, r)"
      by (simp_all split: if_splits)
    from "7.IH"(2) [OF None nl m] obtain front where "xs = front @ r" ..
    then have "x # xs = (x # front) @ r" by simp
    then show ?thesis ..
  qed
next
  case (9 adv p cap x xs)
  show ?case
  proof (cases "re_match adv p cap (x # xs)")
    case (Some a)
    with "9.prems" have "re_match adv p cap (x # xs) = Some (c, r)" by simp
    then show ?thesis by (rule "9.IH"(1))
  next
    case None
    with "9.prems" have nl: "x \<noteq> CHR 0x0A"
      and m: "re_match False (LazyGroup # p) (cap @ [x]) xs = Some (c, r)"
      by (simp_all split: if_splits)
    from "9.IH"(2) [OF None nl m] obtain front where "xs = front @ r" ..
    then have "x # xs = (x # front) @ r" by simp
    then show ?thesis ..
  qed
next
  case (11 adv p cap x xs)
  then have "\<exists>front. xs = front @ r" by (simp split: if_splits)
  then obtain front where "xs = front @ r" ..
  then have "x # xs = (x # front) @ r" by simp
  then show ?case ..
qed simp_all

lemma re_match_consumes:
  "re_match adv p cap s = Some (c, r) \<Longrightarrow>
   length r \<le> length s \<and> (adv \<longrightarrow> length r < length s)"
proof (induction adv p cap s rule: re_match.induct)
  case (7 adv p cap x xs)
  then show ?case by (cases "re_match adv p cap (x # xs)") (auto split: if_splits)
next
  case (9 adv p cap x xs)
  then show ?case by (cases "re_match adv p cap (x # xs)") (auto split: if_splits)
qed (auto split: if_splits)

lemma re_match_must_advance:
  "re_match True p cap s = Some (c, r) \<Longrightarrow> length r < length s"
  using re_match_consumes [of True p cap s c r] by simp

lemma re_match_literal_pattern_adv:
  "re_match adv (literal_pattern prefix suffix) cap s =
     re_match False (literal_pattern prefix suffix) cap s"
  by (cases prefix; cases s) (simp_all add: literal_pattern_def)

lemma re_findall_sound:
  "x \<in> set (re_findall adv p s) \<Longrightarrow>
   \<exists>before t r adv'. s = before @ t \<and> re_match adv' p [] t = Some (x, r)"
proof (induction adv p s rule: re_findall.induct)
  case (1 adv p s)
  show ?case
  proof (cases "re_match adv p [] s")
    case None
    with "1.prems" obtain y ys where s: "s = y # ys" and x: "x \<in> set (re_findall False p ys)"
      by (subst (asm) re_findall.simps) (auto split: list.splits)
    from "1.IH"(1) [OF None s x] obtain before t r adv' where
      "ys = before @ t" "re_match adv' p [] t = Some (x, r)" by auto
    with s have "s = (y # before) @ t \<and> re_match adv' p [] t = Some (x, r)" by simp
    then show ?thesis by (intro exI)
  next
    case (Some a)
    obtain cap rest where a: "a = (cap, rest)" by (cases a)
    show ?thesis
    proof (cases "x = cap")
      case True
      with Some a have "s = [] @ s \<and> re_match adv p [] s = Some (x, rest)" by simp
      then show ?thesis by (intro exI)
    next
      case False
      show ?thesis
      proof (cases "length rest < length s")
        case True
        with "1.prems" Some a False have x: "x \<in> set (re_findall False p rest)"
          by (subst (asm) re_findall.simps) simp
        from "1.IH"(2) [OF Some a [symmetric] True x] obtain before t r adv' where
          bt: "rest = before @ t" "re_match adv' p [] t = Some (x, r)" by auto
        from Some a have "\<exists>front. s = front @ rest" by (simp add: re_match_rest)
        then obtain front where "s = front @ rest" ..
        with bt have "s = (front @ before) @ t \<and> re_match adv' p [] t = Some (x, r)" by simp
        then show ?thesis by (intro exI)
      next
        case nl: False
        with "1.prems" Some a False have na: "\<not> adv" and x: "x \<in> set (re_findall True p s)"
          by (subst (asm) re_findall.simps, simp split: if_splits)+
        from "1.IH"(3) [OF Some a [symmetric] nl na x] show ?thesis .
      qed
    qed
  qed
qed

subsection \<open>When the literal pattern matches\<close>

lemma re_match_lits_exact: "re_match False (map Lit w) cap (w @ t) = Some (cap, t)"
  using re_match_lits [of w "[]" cap "w @ t"] by simp

lemma re_match_lits_capture:
  "re_match False (map Lit w) cap s = Some (c, r) \<Longrightarrow> c = cap"
  using re_match_lits [of w "[]" cap s] by (simp split: if_splits)

lemma re_match_lazy_first:
  "re_match False p cap s = Some r \<Longrightarrow> re_match False (Lazy # p) cap s = Some r"
  by (cases s) simp_all

lemma re_match_lazy_lits_exact: "re_match False (Lazy # map Lit w) cap (w @ t) = Some (cap, t)"
  by (rule re_match_lazy_first) (rule re_match_lits_exact)

lemma re_match_lazy_complete:
  "CHR 0x0A \<notin> set gap \<Longrightarrow>
   \<exists>r. re_match False (Lazy # map Lit w) cap (gap @ w @ t) = Some (cap, r)"
proof (induction gap)
  case Nil
  show ?case by (simp add: re_match_lazy_lits_exact)
next
  case (Cons x gap)
  then obtain r where r: "re_match False (Lazy # map Lit w) cap (gap @ w @ t) = Some (cap, r)"
    by auto
  show ?case
  proof (cases "re_match False (map Lit w) cap (x # gap @ w @ t)")
    case None
    with Cons.prems r show ?thesis by auto
  next
    case (Some a)
    obtain c r' where a: "a = (c, r')" by (cases a)
    with Some have "c = cap" by (simp add: re_match_lits_capture)
    with Some a show ?thesis by simp
  qed
qed

lemma re_match_group_skip:
  "\<forall>x \<in> set name. x \<notin> set cs \<and> x \<noteq> CHR 0x0A \<Longrightarrow>
   re_match False (LazyGroup # In cs # p) cap (name @ t) =
     re_match False (LazyGroup # In cs # p) (cap @ name) t"
  by (induction name arbitrary: cap) simp_all

lemma literal_pattern_complete:
  assumes q1: "q1 \<in> set quotes" and q2: "q2 \<in> set quotes"
    and name: "\<forall>x \<in> set name. x \<notin> set quotes \<and> x \<noteq> CHR 0x0A"
    and gap: "CHR 0x0A \<notin> set gap"
  shows "\<exists>r. re_match False (literal_pattern prefix suffix) []
               (prefix @ [q1] @ name @ [q2] @ gap @ suffix @ t) = Some (name, r)"
proof -
  from re_match_lazy_complete [OF gap, of suffix name t] obtain r where
    r: "re_match False (Lazy # map Lit suffix) name (gap @ suffix @ t) = Some (name, r)" ..
  have "re_match False (LazyGroup # In quotes # Lazy # map Lit suffix) []
          (name @ q2 # gap @ suffix @ t) = Some (name, r)"
    using q2 r by (simp add: re_match_group_skip [OF name])
  then have "re_match False (literal_pattern prefix suffix) []
               (prefix @ [q1] @ name @ [q2] @ gap @ suffix @ t) = Some (name, r)"
    using q1 by (simp add: literal_pattern_def re_match_lits)
  then show ?thesis ..
qed

lemma literal_pattern_exact:
  assumes q1: "q1 \<in> set quotes" and q2: "q2 \<in> set quotes"
    and name: "\<forall>x \<in> set name. x \<notin> set quotes \<and> x \<noteq> CHR 0x0A"
  shows "re_match False (literal_pattern prefix suffix) []
           (prefix @ [q1] @ name @ [q2] @ suffix @ t) = Some (name, t)"
proof -
  have "re_match False (LazyGroup # In quotes # Lazy # map Lit suffix) []
          (name @ q2 # suffix @ t) = Some (name, t)"
    using q2 by (simp add: re_match_group_skip [OF name] re_match_lazy_lits_exact)
  then show ?thesis
    using q1 by (simp add: literal_pattern_def re_match_lits)
qed

lemma re_findall_head:
  "re_match False p [] s = Some (c, r) \<Longrightarrow> c \<in> set (re_findall False p s)"
  by (subst re_findall.simps) (simp split: list.splits)

lemma literal_pattern_not_empty: "re_match False (literal_pattern prefix suffix) [] [] = None"
  by (simp add: literal_pattern_def re_match_lits)

lemma re_findall_literal_Nil: "re_findall False (literal_pattern prefix suffix) [] = []"
  by (subst re_findall.simps) (simp add: literal_pattern_not_empty)

lemma params_extract_raw:
  "read_file g p = Some (Inr content) \<Longrightarrow>
   params_extract g re_lib [prefix, suffix] p False =
     Some (Inr (sort (remdups (re_findall False (literal_pattern prefix suffix) content))))"
  by (simp add: params_extract_def)

lemma params_extract_escaped:
  "read_file g p = Some (Inr content) \<Longrightarrow>
   params_extract g re_lib [prefix, suffix] p True =
     Some (case re_lib (prefix @ ''['' @ quotes @ ''](.*?)['' @ quotes @ ''].*?'' @ suffix)
                  content of
             Inl e \<Rightarrow> Inl e
           | Inr params \<Rightarrow> Inr (sort (remdups params)))"
  by (simp add: params_extract_def)

definition example_script :: string where
  "example_script =
     ''x = obs['' @ [CHR 0x27] @ ''foo'' @ [CHR 0x27] @ '']'' @ [CHR 0x0A]
       @ ''y = obs['' @ [CHR 0x27] @ ''bar'' @ [CHR 0x27] @ '']''"

lemma re_findall_example:
  "re_findall False (literal_pattern ''obs['' '']'') example_script = [''foo'', ''bar'']"
  by (simp add: example_script_def literal_pattern_def quotes_def re_findall.simps)

lemma sort_example: "sort (remdups [''foo'', ''bar'']) = [''bar'', ''foo'']"
  by (simp add: less_eq_char_def)

text \<open>
  C3. Whenever the file is fetched, literal-mode extraction with a trigger pair
  returns a list that is sorted ascending and free of duplicates, holding exactly
  the names matched; with zero matches it returns the empty list, not an error.
  The same holds for an already escaped trigger whenever the library accepts the
  pattern. On the content \<open>x = obs['foo']\<close>, newline, \<open>y = obs['bar']\<close> with the
  trigger \<open>("obs[", "]")\<close> the result is \<open>["bar", "foo"]\<close>.
\<close>

theorem params_extract_sorted_distinct:
  assumes "read_file g p = Some (Inr content)"
  shows "(\<exists>params.
            params_extract g re_lib [prefix, suffix] p False = Some (Inr params)
          \<and> sorted params \<and> distinct params
          \<and> set params = set (re_findall False (literal_pattern prefix suffix) content)
          \<and> (re_findall False (literal_pattern prefix suffix) content = [] \<longrightarrow> params = []))
       \<and> (\<forall>found.
            re_lib (prefix @ ''['' @ quotes @ ''](.*?)['' @ quotes @ ''].*?'' @ suffix) content
              = Inr found \<longrightarrow>
            (\<exists>params.
               params_extract g re_lib [prefix, suffix] p True = Some (Inr params)
             \<and> sorted params \<and> distinct params \<and> set params = set found
             \<and> (found = [] \<longrightarrow> params = [])))
       \<and> (content = example_script \<longrightarrow>
            params_extract g re_lib [''obs['', '']''] p False = Some (Inr [''bar'', ''foo'']))"
proof (intro conjI allI impI)
  let ?ms = "re_findall False (literal_pattern prefix suffix) content"
  have "params_extract g re_lib [prefix, suffix] p False = Some (Inr (sort (remdups ?ms)))
        \<and> sorted (sort (remdups ?ms)) \<and> distinct (sort (remdups ?ms))
        \<and> set (sort (remdups ?ms)) = set ?ms
        \<and> (?ms = [] \<longrightarrow> sort (remdups ?ms) = [])"
    using assms by (simp add: params_extract_raw)
  then show "\<exists>params.
            params_extract g re_lib [prefix, suffix] p False = Some (Inr params)
          \<and> sorted params \<and> distinct params
          \<and> set params = set ?ms \<and> (?ms = [] \<longrightarrow> params = [])"
    by (rule exI)
next
  fix found
  assume f: "re_lib (prefix @ ''['' @ quotes @ ''](.*?)['' @ quotes @ ''].*?'' @ suffix) content
              = Inr found"
  have "params_extract g re_lib [prefix, suffix] p True = Some (Inr (sort (remdups found)))
        \<and> sorted (sort (remdups found)) \<and> distinct (sort (remdups found))
        \<and> set (sort (remdups found)) = set found
        \<and> (found = [] \<longrightarrow> sort (remdups found) = [])"
    using assms f by (simp add: params_extract_escaped)
  then show "\<exists>params.
               params_extract g re_lib [prefix, suffix] p True = Some (Inr params)
             \<and> sorted params \<and> distinct params \<and> set params = set found
             \<and> (found = [] \<longrightarrow> params = [])"
    by (rule exI)
next
  assume "content = example_script"
  with assms show "params_extract g re_lib [''obs['', '']''] p False = Some (Inr [''bar'', ''foo''])"
    by (simp add: params_extract_raw re_findall_example sort_example)
qed

lemma read_file_example_script:
  "read_file (files_github [(''o/r/otf.py'', example_script)]) ''o/r/otf.py''
     = Some (Inr example_script)"
  using read_file_files_github [of "[(''o/r/otf.py'', example_script)]" "''o''" "''r''" "''otf.py''"]
  by simp

theorem params_extract_sorted_distinct_witness:
  "read_file (files_github [(''o/r/otf.py'', example_script)]) ''o/r/otf.py''
     = Some (Inr example_script)
   \<and> params_extract (files_github [(''o/r/otf.py'', example_script)]) no_re_lib
         [''obs['', '']''] ''o/r/otf.py'' False = Some (Inr [''bar'', ''foo''])
   \<and> sorted [''bar'', ''foo''] \<and> distinct [''bar'', ''foo'']
   \<and> fixed_re_lib [''foo'', ''bar'', ''foo'']
         (''obs['' @ ''['' @ quotes @ ''](.*?)['' @ quotes @ ''].*?'' @ '']'') example_script
       = Inr [''foo'', ''bar'', ''foo'']
   \<and> params_extract (files_github [(''o/r/otf.py'', example_script)])
         (fixed_re_lib [''foo'', ''bar'', ''foo'']) [''obs['', '']''] ''o/r/otf.py'' True
       = Some (Inr [''bar'', ''foo''])"
proof -
  note rf = read_file_example_script
  have raw: "params_extract (files_github [(''o/r/otf.py'', example_script)]) no_re_lib
         [''obs['', '']''] ''o/r/otf.py'' False = Some (Inr [''bar'', ''foo''])"
    using params_extract_sorted_distinct [OF rf, of no_re_lib "''obs[''" "'']''"]
    by simp
  have lib: "fixed_re_lib [''foo'', ''bar'', ''foo'']
         (''obs['' @ ''['' @ quotes @ ''](.*?)['' @ quotes @ ''].*?'' @ '']'') example_script
       = Inr [''foo'', ''bar'', ''foo'']"
    by (simp add: fixed_re_lib_def)
  from params_extract_sorted_distinct
    [where re_lib = "fixed_re_lib [''foo'', ''bar'', ''foo'']"
       and prefix = "''obs[''" and suffix = "'']''",
      OF rf, THEN conjunct2, THEN conjunct1, rule_format, OF lib]
  obtain params where
    run: "params_extract (files_github [(''o/r/otf.py'', example_script)])
            (fixed_re_lib [''foo'', ''bar'', ''foo'']) [''obs['', '']''] ''o/r/otf.py'' True
          = Some (Inr params)"
    and s: "sorted params" and d: "distinct params"
    and m: "set params = set [''foo'', ''bar'', ''foo'']"
    by (elim exE conjE)
  have val: "params_extract (files_github [(''o/r/otf.py'', example_script)])
         (fixed_re_lib [''foo'', ''bar'', ''foo'']) [''obs['', '']''] ''o/r/otf.py'' True
       = Some (Inr [''bar'', ''foo''])"
    by (simp add: params_extract_escaped [OF rf] fixed_re_lib_def less_eq_char_def)
  with run have "params = [''bar'', ''foo'']" by simp
  with s d have srt: "sorted [''bar'', ''foo'']" and dst: "distinct [''bar'', ''foo'']"
    by simp_all
  from rf raw srt dst lib val show ?thesis by (intro conjI)
qed

definition broken_line_script :: string where
  "broken_line_script = ''obs['' @ [CHR 0x27] @ ''foo'' @ [CHR 0x27, CHR 0x0A] @ '']''"

lemma read_file_broken_line_script:
  "read_file (files_github [(''o/r/otf.py'', broken_line_script)]) ''o/r/otf.py''
     = Some (Inr broken_line_script)"
  using read_file_files_github
    [of "[(''o/r/otf.py'', broken_line_script)]" "''o''" "''r''" "''otf.py''"]
  by simp

subsection \<open>References anywhere in the content\<close>

lemma literal_pattern_consumes:
  assumes "re_match False (literal_pattern prefix suffix) [] s = Some (c, r)"
  shows "length r < length s"
proof -
  from literal_pattern_sound [OF assms] obtain q1 q2 gap where
    "s = prefix @ [q1] @ c @ [q2] @ gap @ suffix @ r" by auto
  then have "length s = length prefix + 1 + length c + 1 + length gap + length suffix + length r"
    by simp
  then show ?thesis by simp
qed

lemma re_findall_literal_step:
  assumes "re_match False (literal_pattern prefix suffix) [] s = Some (c, r)"
  shows "re_findall False (literal_pattern prefix suffix) s =
           c # re_findall False (literal_pattern prefix suffix) r"
  using assms literal_pattern_consumes [OF assms]
  by (subst re_findall.simps) simp

lemma re_findall_literal_skip:
  assumes "re_match False (literal_pattern prefix suffix) [] (x # xs) = None"
  shows "re_findall False (literal_pattern prefix suffix) (x # xs) =
           re_findall False (literal_pattern prefix suffix) xs"
  using assms by (subst re_findall.simps) simp

lemma re_findall_literal_reaches:
  assumes m: "re_match False (literal_pattern prefix suffix) [] t = Some (name, r0)"
  shows "(\<forall>b1 b2 c r. before = b1 @ b2 \<and> b2 \<noteq> []
            \<and> re_match False (literal_pattern prefix suffix) [] (b2 @ t) = Some (c, r)
            \<longrightarrow> (\<exists>m. r = m @ t)) \<Longrightarrow>
         name \<in> set (re_findall False (literal_pattern prefix suffix) (before @ t))"
proof (induction "length before" arbitrary: before rule: less_induct)
  case less
  let ?pat = "literal_pattern prefix suffix"
  show ?case
  proof (cases before)
    case Nil
    with m show ?thesis by (simp add: re_findall_head)
  next
    case (Cons x bs)
    show ?thesis
    proof (cases "re_match False ?pat [] (before @ t)")
      case None
      have H: "\<forall>b1 b2 c r. bs = b1 @ b2 \<and> b2 \<noteq> []
            \<and> re_match False ?pat [] (b2 @ t) = Some (c, r) \<longrightarrow> (\<exists>m. r = m @ t)"
      proof (intro allI impI, elim conjE)
        fix b1 b2 c r
        assume "bs = b1 @ b2" "b2 \<noteq> []" "re_match False ?pat [] (b2 @ t) = Some (c, r)"
        with Cons have "before = (x # b1) @ b2 \<and> b2 \<noteq> []
            \<and> re_match False ?pat [] (b2 @ t) = Some (c, r)" by simp
        with less.prems show "\<exists>m. r = m @ t" by blast
      qed
      have "length bs < length before" using Cons by simp
      from less.hyps [OF this H] have "name \<in> set (re_findall False ?pat (bs @ t))" .
      moreover from None Cons have "re_findall False ?pat (before @ t) = re_findall False ?pat (bs @ t)"
        using re_findall_literal_skip [of prefix suffix x "bs @ t"] by simp
      ultimately show ?thesis by simp
    next
      case (Some a)
      obtain c r where a: "a = (c, r)" by (cases a)
      with Some have mt: "re_match False ?pat [] (before @ t) = Some (c, r)" by simp
      from Cons have "before = [] @ before \<and> before \<noteq> []
          \<and> re_match False ?pat [] (before @ t) = Some (c, r)" using mt by simp
      with less.prems obtain mid where r: "r = mid @ t" by blast
      from re_match_rest [OF mt] obtain front where f: "before @ t = front @ r" ..
      with r have bf: "before = front @ mid" by simp
      from literal_pattern_consumes [OF mt] r bf have fne: "front \<noteq> []" by auto
      then have shorter: "length mid < length before" using bf by simp
      have H: "\<forall>b1 b2 c r. mid = b1 @ b2 \<and> b2 \<noteq> []
            \<and> re_match False ?pat [] (b2 @ t) = Some (c, r) \<longrightarrow> (\<exists>m. r = m @ t)"
      proof (intro allI impI, elim conjE)
        fix b1 b2 c' r'
        assume "mid = b1 @ b2" "b2 \<noteq> []" "re_match False ?pat [] (b2 @ t) = Some (c', r')"
        with bf have "before = (front @ b1) @ b2 \<and> b2 \<noteq> []
            \<and> re_match False ?pat [] (b2 @ t) = Some (c', r')" by simp
        with less.prems show "\<exists>m. r' = m @ t" by blast
      qed
      from less.hyps [OF shorter H] have "name \<in> set (re_findall False ?pat (mid @ t))" .
      with re_findall_literal_step [OF mt] r show ?thesis by simp
    qed
  qed
qed

text \<open>
  \<open>clear_before p before t\<close> computes whether, in \<open>before @ t\<close>, every match of \<open>p\<close>
  that starts inside \<open>before\<close> ends before \<open>t\<close> begins.
\<close>

fun clear_before :: "re_item list \<Rightarrow> string \<Rightarrow> string \<Rightarrow> bool" where
  "clear_before p [] t = True"
| "clear_before p (x # xs) t =
     ((case re_match False p [] (x # xs @ t) of
         None \<Rightarrow> True
       | Some (c, r) \<Rightarrow> length t \<le> length r)
      \<and> clear_before p xs t)"

lemma clear_before_suffix: "clear_before p (a @ b) t \<Longrightarrow> clear_before p b t"
  by (induction a) simp_all

lemma clear_before_matches:
  assumes "clear_before p before t" and "before = b1 @ b2" and "b2 \<noteq> []"
    and m: "re_match False p [] (b2 @ t) = Some (c, r)"
  shows "\<exists>m. r = m @ t"
proof -
  from assms(1,2) have cb: "clear_before p b2 t" by (simp add: clear_before_suffix)
  from assms(3) obtain y ys where b2: "b2 = y # ys" by (cases b2) auto
  with cb m have len: "length t \<le> length r" by simp
  from re_match_rest [OF m] obtain front where f: "b2 @ t = front @ r" ..
  then have "length b2 + length t = length front + length r" by (metis length_append)
  with len have fl: "length front \<le> length b2" by simp
  from f have "drop (length front) (b2 @ t) = r" by (metis append_eq_conv_conj)
  with fl have "r = drop (length front) b2 @ t" by simp
  then show ?thesis ..
qed

lemma clear_before_all:
  assumes "clear_before p before t"
  shows "\<forall>b1 b2 c r. before = b1 @ b2 \<and> b2 \<noteq> []
           \<and> re_match False p [] (b2 @ t) = Some (c, r) \<longrightarrow> (\<exists>m. r = m @ t)"
proof (intro allI impI, elim conjE)
  fix b1 b2 c r
  assume "before = b1 @ b2" "b2 \<noteq> []" "re_match False p [] (b2 @ t) = Some (c, r)"
  with assms show "\<exists>m. r = m @ t" by (rule clear_before_matches)
qed

text \<open>
  C4 (as amended). In literal mode the pattern prefix, quote, (name), quote,
  anything, suffix is matched non-greedily with the dot matching every character
  except a newline. Every extracted name therefore occurs in the content as
  prefix, quote, name, quote, gap, suffix with no newline in the name nor in the
  gap. Conversely such an occurrence anywhere in the content, its name free of
  quotes and newlines and its gap free of newlines, has its name extracted,
  provided that no match starting before the occurrence reaches into it (the
  search resumes where a match ends, so a match that overlaps the occurrence
  hides it).
\<close>

theorem params_extract_within_line:
  assumes "read_file g p = Some (Inr content)"
  shows "\<exists>params.
           params_extract g re_lib [prefix, suffix] p False = Some (Inr params)
         \<and> (\<forall>name \<in> set params.
               \<exists>before q1 q2 gap after.
                 content = before @ prefix @ [q1] @ name @ [q2] @ gap @ suffix @ after
               \<and> q1 \<in> set quotes \<and> q2 \<in> set quotes
               \<and> CHR 0x0A \<notin> set name \<and> CHR 0x0A \<notin> set gap)
         \<and> (\<forall>before q1 q2 name gap after.
               content = before @ prefix @ [q1] @ name @ [q2] @ gap @ suffix @ after
               \<and> q1 \<in> set quotes \<and> q2 \<in> set quotes
               \<and> (\<forall>c \<in> set name. c \<notin> set quotes \<and> c \<noteq> CHR 0x0A)
               \<and> CHR 0x0A \<notin> set gap
               \<and> (\<forall>b1 b2 c r.
                     before = b1 @ b2 \<and> b2 \<noteq> []
                     \<and> re_match False (literal_pattern prefix suffix) []
                          (b2 @ prefix @ [q1] @ name @ [q2] @ gap @ suffix @ after) = Some (c, r)
                     \<longrightarrow> (\<exists>m. r = m @ prefix @ [q1] @ name @ [q2] @ gap @ suffix @ after))
               \<longrightarrow> name \<in> set params)"
proof -
  let ?pat = "literal_pattern prefix suffix"
  let ?params = "sort (remdups (re_findall False ?pat content))"
  have run: "params_extract g re_lib [prefix, suffix] p False = Some (Inr ?params)"
    using assms by (rule params_extract_raw)
  have sound: "\<forall>name \<in> set ?params.
       \<exists>before q1 q2 gap after.
         content = before @ prefix @ [q1] @ name @ [q2] @ gap @ suffix @ after
       \<and> q1 \<in> set quotes \<and> q2 \<in> set quotes
       \<and> CHR 0x0A \<notin> set name \<and> CHR 0x0A \<notin> set gap"
  proof
    fix name assume "name \<in> set ?params"
    then have "name \<in> set (re_findall False ?pat content)" by simp
    from re_findall_sound [OF this] obtain before t r adv' where
      c: "content = before @ t" and m': "re_match adv' ?pat [] t = Some (name, r)" by auto
    have "re_match adv' ?pat [] t = re_match False ?pat [] t"
      by (rule re_match_literal_pattern_adv)
    with m' have m: "re_match False ?pat [] t = Some (name, r)" by simp
    from literal_pattern_sound [OF m] obtain q1 q2 gap where
      t: "t = prefix @ [q1] @ name @ [q2] @ gap @ suffix @ r"
      and q: "q1 \<in> set quotes" "q2 \<in> set quotes"
      and nl: "CHR 0x0A \<notin> set name" "CHR 0x0A \<notin> set gap" by auto
    from c t have "content = before @ prefix @ [q1] @ name @ [q2] @ gap @ suffix @ r" by simp
    with q nl show "\<exists>before q1 q2 gap after.
         content = before @ prefix @ [q1] @ name @ [q2] @ gap @ suffix @ after
       \<and> q1 \<in> set quotes \<and> q2 \<in> set quotes
       \<and> CHR 0x0A \<notin> set name \<and> CHR 0x0A \<notin> set gap"
      by (intro exI [of _ before] exI [of _ q1] exI [of _ q2] exI [of _ gap] exI [of _ r]) simp
  qed
  have complete: "\<forall>before q1 q2 name gap after.
       content = before @ prefix @ [q1] @ name @ [q2] @ gap @ suffix @ after
       \<and> q1 \<in> set quotes \<and> q2 \<in> set quotes
       \<and> (\<forall>c \<in> set name. c \<notin> set quotes \<and> c \<noteq> CHR 0x0A)
       \<and> CHR 0x0A \<notin> set gap
       \<and> (\<forall>b1 b2 c r.
             before = b1 @ b2 \<and> b2 \<noteq> []
             \<and> re_match False ?pat []
                  (b2 @ prefix @ [q1] @ name @ [q2] @ gap @ suffix @ after) = Some (c, r)
             \<longrightarrow> (\<exists>m. r = m @ prefix @ [q1] @ name @ [q2] @ gap @ suffix @ after))
       \<longrightarrow> name \<in> set ?params"
  proof (intro allI impI, elim conjE)
    fix before q1 q2 name gap after
    let ?t = "prefix @ [q1] @ name @ [q2] @ gap @ suffix @ after"
    assume c: "content = before @ ?t"
      and q1: "q1 \<in> set quotes" and q2: "q2 \<in> set quotes"
      and name: "\<forall>c \<in> set name. c \<notin> set quotes \<and> c \<noteq> CHR 0x0A"
      and gap: "CHR 0x0A \<notin> set gap"
      and clear: "\<forall>b1 b2 c r.
             before = b1 @ b2 \<and> b2 \<noteq> []
             \<and> re_match False ?pat [] (b2 @ ?t) = Some (c, r)
             \<longrightarrow> (\<exists>m. r = m @ ?t)"
    from literal_pattern_complete [OF q1 q2 name gap, of prefix suffix after]
    obtain r where "re_match False ?pat [] ?t = Some (name, r)" by auto
    from re_findall_literal_reaches [OF this clear] c
    have "name \<in> set (re_findall False ?pat content)" by simp
    then show "name \<in> set ?params" by simp
  qed
  from run sound complete show ?thesis by (intro exI [of _ ?params] conjI)
qed

theorem params_extract_within_line_witness:
  "read_file (files_github [(''o/r/otf.py'', example_script)]) ''o/r/otf.py''
     = Some (Inr example_script)
   \<and> example_script =
       ''x = '' @ ''obs['' @ [CHR 0x27] @ ''foo'' @ [CHR 0x27] @ [] @ '']''
         @ ([CHR 0x0A] @ ''y = obs['' @ [CHR 0x27] @ ''bar'' @ [CHR 0x27] @ '']'')
   \<and> example_script =
       (''x = obs['' @ [CHR 0x27] @ ''foo'' @ [CHR 0x27] @ '']'' @ [CHR 0x0A] @ ''y = '')
         @ ''obs['' @ [CHR 0x27] @ ''bar'' @ [CHR 0x27] @ [] @ '']'' @ []
   \<and> CHR 0x27 \<in> set quotes
   \<and> clear_before (literal_pattern ''obs['' '']'') ''x = ''
        (''obs['' @ [CHR 0x27] @ ''foo'' @ [CHR 0x27] @ [] @ '']''
           @ ([CHR 0x0A] @ ''y = obs['' @ [CHR 0x27] @ ''bar'' @ [CHR 0x27] @ '']''))
   \<and> clear_before (literal_pattern ''obs['' '']'')
        (''x = obs['' @ [CHR 0x27] @ ''foo'' @ [CHR 0x27] @ '']'' @ [CHR 0x0A] @ ''y = '')
        (''obs['' @ [CHR 0x27] @ ''bar'' @ [CHR 0x27] @ [] @ '']'' @ [])
   \<and> (\<exists>params.
         params_extract (files_github [(''o/r/otf.py'', example_script)]) no_re_lib
           [''obs['', '']''] ''o/r/otf.py'' False = Some (Inr params)
       \<and> ''foo'' \<in> set params \<and> ''bar'' \<in> set params)
   \<and> params_extract (files_github [(''o/r/otf.py'', example_script)]) no_re_lib
         [''obs['', '']''] ''o/r/otf.py'' False = Some (Inr [''bar'', ''foo''])"
proof -
  note rf = read_file_example_script
  let ?after1 = "[CHR 0x0A] @ ''y = obs['' @ [CHR 0x27] @ ''bar'' @ [CHR 0x27] @ '']''"
  let ?before2 = "''x = obs['' @ [CHR 0x27] @ ''foo'' @ [CHR 0x27] @ '']'' @ [CHR 0x0A] @ ''y = ''"
  let ?t1 = "''obs['' @ [CHR 0x27] @ ''foo'' @ [CHR 0x27] @ [] @ '']'' @ ?after1"
  let ?t2 = "''obs['' @ [CHR 0x27] @ ''bar'' @ [CHR 0x27] @ [] @ '']'' @ []"
  have d1: "example_script = ''x = '' @ ?t1" by (simp add: example_script_def)
  have d2: "example_script = ?before2 @ ?t2" by (simp add: example_script_def)
  have q: "CHR 0x27 \<in> set quotes" by (simp add: quotes_def)
  have n1: "\<forall>c \<in> set ''foo''. c \<notin> set quotes \<and> c \<noteq> CHR 0x0A" by (simp add: quotes_def)
  have n2: "\<forall>c \<in> set ''bar''. c \<notin> set quotes \<and> c \<noteq> CHR 0x0A" by (simp add: quotes_def)
  have g: "CHR 0x0A \<notin> set []" by simp
  have c1: "clear_before (literal_pattern ''obs['' '']'') ''x = '' ?t1"
    by (simp add: literal_pattern_def quotes_def)
  have c2: "clear_before (literal_pattern ''obs['' '']'') ?before2 ?t2"
    by (simp add: literal_pattern_def quotes_def)
  have run: "params_extract (files_github [(''o/r/otf.py'', example_script)]) no_re_lib
         [''obs['', '']''] ''o/r/otf.py'' False = Some (Inr [''bar'', ''foo''])"
    by (simp add: params_extract_raw [OF rf] re_findall_example sort_example)
  from params_extract_within_line [OF rf, of no_re_lib "''obs[''" "'']''"]
  obtain params where
    p: "params_extract (files_github [(''o/r/otf.py'', example_script)]) no_re_lib
           [''obs['', '']''] ''o/r/otf.py'' False = Some (Inr params)"
    and complete: "\<forall>before q1 q2 name gap after.
       example_script = before @ ''obs['' @ [q1] @ name @ [q2] @ gap @ '']'' @ after
       \<and> q1 \<in> set quotes \<and> q2 \<in> set quotes
       \<and> (\<forall>c \<in> set name. c \<notin> set quotes \<and> c \<noteq> CHR 0x0A)
       \<and> CHR 0x0A \<notin> set gap
       \<and> (\<forall>b1 b2 c r.
             before = b1 @ b2 \<and> b2 \<noteq> []
             \<and> re_match False (literal_pattern ''obs['' '']'') []
                  (b2 @ ''obs['' @ [q1] @ name @ [q2] @ gap @ '']'' @ after) = Some (c, r)
             \<longrightarrow> (\<exists>m. r = m @ ''obs['' @ [q1] @ name @ [q2] @ gap @ '']'' @ after))
       \<longrightarrow> name \<in> set params"
    by (elim exE conjE)
  have foo: "''foo'' \<in> set params"
    by (rule complete [rule_format, of "''x = ''" "CHR 0x27" "''foo''" "CHR 0x27" "[]" ?after1])
       (intro conjI, rule d1, rule q, rule q, rule n1, rule g, rule clear_before_all [OF c1])
  have bar: "''bar'' \<in> set params"
    by (rule complete [rule_format, of ?before2 "CHR 0x27" "''bar''" "CHR 0x27" "[]" "[]"])
       (intro conjI, rule d2, rule q, rule q, rule n2, rule g, rule clear_before_all [OF c2])
  from p foo bar have ex: "\<exists>params.
         params_extract (files_github [(''o/r/otf.py'', example_script)]) no_re_lib
           [''obs['', '']''] ''o/r/otf.py'' False = Some (Inr params)
       \<and> ''foo'' \<in> set params \<and> ''bar'' \<in> set params"
    by (intro exI [of _ params] conjI)
  from rf d1 d2 q c1 c2 ex run show ?thesis by (intro conjI)
qed

text \<open>
  The claim as written (the dot also matches newlines) fails: with the closing
  quote and the suffix on different lines, as in \<open>obs['foo'\<close>, newline, \<open>]\<close>,
  nothing is extracted.
\<close>

theorem params_extract_newline_counterexample:
  "params_extract (files_github [(''o/r/otf.py'', broken_line_script)]) no_re_lib
     [''obs['', '']''] ''o/r/otf.py'' False = Some (Inr [])"
proof -
  have "re_findall False (literal_pattern ''obs['' '']'') broken_line_script = []"
    by (simp add: broken_line_script_def literal_pattern_def quotes_def re_findall.simps)
  then show ?thesis
    by (simp add: params_extract_raw [OF read_file_broken_line_script])
qed

text \<open>
  C9. The opening and the closing quote are matched independently: for a
  reference \<open>prefix q1 name q2 suffix\<close> with any two quote characters \<open>q1\<close>, \<open>q2\<close>
  (equal or not, as in \<open>obs["foo']\<close>) the result is the name alone, the same for
  every choice of the two quotes.
\<close>

theorem params_extract_quotes_independent:
  assumes "read_file g p = Some (Inr (prefix @ [q1] @ name @ [q2] @ suffix))"
    and "q1 \<in> set quotes" and "q2 \<in> set quotes"
    and "\<forall>c \<in> set name. c \<notin> set quotes \<and> c \<noteq> CHR 0x0A"
  shows "params_extract g re_lib [prefix, suffix] p False = Some (Inr [name])"
proof -
  have "re_match False (literal_pattern prefix suffix) [] (prefix @ [q1] @ name @ [q2] @ suffix @ [])
          = Some (name, [])"
    using assms(2-4) by (rule literal_pattern_exact)
  then have "re_findall False (literal_pattern prefix suffix) (prefix @ [q1] @ name @ [q2] @ suffix)
          = [name]"
    by (subst re_findall.simps) (simp add: re_findall_literal_Nil)
  then show ?thesis
    by (simp add: params_extract_raw [OF assms(1)])
qed

definition mismatched_script :: string where
  "mismatched_script = ''obs['' @ [CHR 0x22] @ ''foo'' @ [CHR 0x27] @ '']''"

lemma read_file_mismatched_script:
  "read_file (files_github [(''o/r/otf.py'', mismatched_script)]) ''o/r/otf.py''
     = Some (Inr (''obs['' @ [CHR 0x22] @ ''foo'' @ [CHR 0x27] @ '']''))"
  using read_file_files_github
    [of "[(''o/r/otf.py'', mismatched_script)]" "''o''" "''r''" "''otf.py''"]
  by (simp add: mismatched_script_def)

theorem params_extract_quotes_independent_witness:
  "read_file (files_github [(''o/r/otf.py'', mismatched_script)]) ''o/r/otf.py''
     = Some (Inr (''obs['' @ [CHR 0x22] @ ''foo'' @ [CHR 0x27] @ '']''))
   \<and> CHR 0x22 \<in> set quotes \<and> CHR 0x27 \<in> set quotes
   \<and> set ''foo'' \<inter> (set quotes \<union> {CHR 0x0A}) = {}
   \<and> params_extract (files_github [(''o/r/otf.py'', mismatched_script)]) no_re_lib
         [''obs['', '']''] ''o/r/otf.py'' False = Some (Inr [''foo''])"
proof -
  have q1: "CHR 0x22 \<in> set quotes" and q2: "CHR 0x27 \<in> set quotes"
    by (simp_all add: quotes_def)
  have n: "\<forall>c \<in> set ''foo''. c \<notin> set quotes \<and> c \<noteq> CHR 0x0A"
    by (simp add: quotes_def)
  have n': "set ''foo'' \<inter> (set quotes \<union> {CHR 0x0A}) = {}"
    by (simp add: quotes_def)
  show ?thesis
    by (intro conjI)
      (rule read_file_mismatched_script, rule q1, rule q2, rule n',
       rule params_extract_quotes_independent [OF read_file_mismatched_script q1 q2 n])
qed

section \<open>Reference Extractor, evaluative mode: \<open>eval_param\<close> and \<open>params_extract_eval\<close>\<close>

definition ModuleNotFoundError :: "string \<Rightarrow> exception" where
  "ModuleNotFoundError msg =
     PyExc [''ModuleNotFoundError'', ''ImportError'', ''Exception'', ''BaseException''] msg"

definition NameError :: "string \<Rightarrow> exception" where
  "NameError msg = PyExc [''NameError'', ''Exception'', ''BaseException''] msg"

definition IndentationError :: "string \<Rightarrow> exception" where
  "IndentationError msg =
     PyExc [''IndentationError'', ''SyntaxError'', ''Exception'', ''BaseException''] msg"

definition ZeroDivisionError :: "string \<Rightarrow> exception" where
  "ZeroDivisionError msg =
     PyExc [''ZeroDivisionError'', ''ArithmeticError'', ''Exception'', ''BaseException''] msg"

definition SystemExit :: "string \<Rightarrow> exception" where
  "SystemExit msg = PyExc [''SystemExit'', ''BaseException''] msg"

text \<open>
  The interpreter is a parameter of the model. \<open>py_exec filename content\<close> is
  \<open>exec(content, pymodule.__dict__)\<close> for the fresh module named \<open>filename\<close>: the
  namespace it leaves behind, and the exception that ended it, if any.
  \<open>py_eval pymodule expr\<close> is \<open>eval(expr)\<close> where \<open>pymodule\<close> is that namespace:
  the value, or the exception raised; in the source it is the only statement
  inside the second \<open>try\<close>. \<open>py_str v\<close> is \<open>str(v)\<close>, the text of a value or the
  exception its formatting raises: \<open>print(true_param)\<close> and the returned
  \<open>str(true_param)\<close> both format the value, after the \<open>try\<close> statement, so an
  exception of \<open>py_str\<close> leaves \<open>eval_param\<close> whatever its class. The sentinel is
  a string, which formats as itself. For an exception \<open>e\<close>, \<open>message e\<close> is
  \<open>str(e)\<close>.

  \<open>eval_param\<close> returns the lines it prints itself (one entry for each call of
  \<open>print\<close>; what the executed content prints is not part of the model) and its
  result.
\<close>

definition eval_param ::
  "(string \<Rightarrow> string \<Rightarrow> 'ns \<times> exception option) \<Rightarrow> ('ns \<Rightarrow> string \<Rightarrow> exception + 'v)
     \<Rightarrow> ('v \<Rightarrow> exception + string)
     \<Rightarrow> string \<Rightarrow> string \<Rightarrow> string \<Rightarrow> string list \<times> (exception + string)"
where
  "eval_param py_exec py_eval py_str path_arg content param =
     (case rev (str_split path_arg CHR ''/'' None) of
        [] \<Rightarrow> ([], Inl (IndexError ''list index out of range''))
      | filename # _ \<Rightarrow>
          if CHR ''.'' \<notin> set filename
          then ([], Inl (AttributeError
                  ([CHR 0x27] @ ''NoneType'' @ [CHR 0x27] @ '' object has no attribute ''
                     @ [CHR 0x27] @ ''start'' @ [CHR 0x27])))
          else
            (let filename = takeWhile (\<lambda>c. c \<noteq> CHR ''.'') filename in
             case py_exec filename content of
               (pymodule, raised) \<Rightarrow>
                 (case (case raised of
                          None \<Rightarrow> Inr []
                        | Some e \<Rightarrow>
                            if isinstance e ''ModuleNotFoundError''
                               \<or> isinstance e ''NameError''
                               \<or> isinstance e ''IndentationError''
                            then Inr [message e @ '' '' @ [CHR 0x0A]
                                        @ ''Incompletely imported '' @ filename @ ''.'']
                            else Inl e) of
                    Inl e \<Rightarrow> ([], Inl e)
                  | Inr printed \<Rightarrow>
                      (case py_eval pymodule (''pymodule.'' @ param) of
                         Inr true_param \<Rightarrow>
                           (case py_str true_param of
                              Inl e \<Rightarrow> (printed, Inl e)
                            | Inr shown \<Rightarrow>
                                (printed @ [shown], Inr (param @ '' -> '' @ shown)))
                       | Inl e \<Rightarrow>
                           if isinstance e ''Exception''
                           then (printed @ [message e, ''Reference cannot be resolved.'', ''???''],
                                 Inr (param @ '' -> ???''))
                           else (printed, Inl e)))))"

text \<open>\<open>re.sub\<close>: like \<open>re.findall\<close>, copying the text between the matches.\<close>

function re_sub :: "bool \<Rightarrow> re_item list \<Rightarrow> string \<Rightarrow> string \<Rightarrow> string" where
  "re_sub adv p repl s =
     (case re_match adv p [] s of
        Some (cap, rest) \<Rightarrow>
          repl @ (if length rest < length s then re_sub False p repl rest
                  else if adv then []
                  else re_sub True p repl s)
      | None \<Rightarrow> (case s of [] \<Rightarrow> [] | x # xs \<Rightarrow> x # re_sub False p repl xs))"
  by pat_completeness auto
termination
  by (relation "measure (\<lambda>(adv, p, repl, s). 2 * length s + (if adv then 0 else 1))") auto

declare re_sub.simps [simp del]

text \<open>The filter of \<open>ignore_import\<close>: six substitutions in a row.\<close>

definition ignore_import_filter :: "string \<Rightarrow> string" where
  "ignore_import_filter content =
     (let content = re_sub False ([Lazy] @ map Lit ''import'' @ [Lazy, Lit CHR 0x0A])
                      [CHR 0x0A] content;
          content = re_sub False (map Lit ''sys'' @ [Dot] @ map Lit ''path''
                      @ [Lazy, Lit CHR 0x0A]) [CHR 0x0A] content;
          content = re_sub False (map Lit ''if'' @ [Lazy, Lit CHR 0x0A]) [CHR 0x0A] content;
          content = re_sub False (map Lit ''for'' @ [Lazy, Lit CHR 0x0A]) [CHR 0x0A] content;
          content = re_sub False (map Lit ''while'' @ [Lazy, Lit CHR 0x0A]) [CHR 0x0A] content
      in re_sub False (replicate 4 (Lit CHR '' '')) [] content)"

text \<open>
  The loop over \<open>all_params\<close>: every span that is not a quoted name goes through
  \<open>eval_param\<close>; nothing catches what \<open>eval_param\<close> raises.
\<close>

fun params_extract_eval_loop ::
  "(string \<Rightarrow> string \<Rightarrow> 'ns \<times> exception option) \<Rightarrow> ('ns \<Rightarrow> string \<Rightarrow> exception + 'v)
     \<Rightarrow> ('v \<Rightarrow> exception + string)
     \<Rightarrow> string \<Rightarrow> string \<Rightarrow> string list \<Rightarrow> string list \<Rightarrow> string list \<Rightarrow> string list
     \<Rightarrow> string list \<times> (exception + string list)"
where
  "params_extract_eval_loop py_exec py_eval py_str path_arg content [] params true_params printed =
     (printed, Inr true_params)"
| "params_extract_eval_loop py_exec py_eval py_str path_arg content (param # rest) params
       true_params printed =
     (if param \<notin> set params
      then (case eval_param py_exec py_eval py_str path_arg content param of
              (out, Inl e) \<Rightarrow> (printed @ out, Inl e)
            | (out, Inr v) \<Rightarrow>
                params_extract_eval_loop py_exec py_eval py_str path_arg content rest params
                  (true_params @ [v]) (printed @ out))
      else params_extract_eval_loop py_exec py_eval py_str path_arg content rest params
             true_params printed)"

definition params_extract_eval ::
  "github \<Rightarrow> (string \<Rightarrow> string \<Rightarrow> exception + string list)
     \<Rightarrow> (string \<Rightarrow> string \<Rightarrow> 'ns \<times> exception option) \<Rightarrow> ('ns \<Rightarrow> string \<Rightarrow> exception + 'v)
     \<Rightarrow> ('v \<Rightarrow> exception + string)
     \<Rightarrow> string list \<Rightarrow> string \<Rightarrow> bool \<Rightarrow> bool
     \<Rightarrow> (string list \<times> (exception + string list)) option"
where
  "params_extract_eval g re_lib py_exec py_eval py_str trigger path_arg already_escaped ignore_import =
     (case read_file g path_arg of
        None \<Rightarrow> None
      | Some (Inl e) \<Rightarrow> Some ([], Inl e)
      | Some (Inr content) \<Rightarrow>
          Some (case trigger of
                  t0 # t1 # _ \<Rightarrow>
                    (case (if already_escaped
                           then re_lib (t0 @ ''['' @ quotes @ ''](.*?)['' @ quotes @ '']'' @ t1)
                                  content
                           else Inr (re_findall False
                                  (map Lit t0 @ [In quotes, LazyGroup, In quotes] @ map Lit t1)
                                  content)) of
                       Inl e \<Rightarrow> ([], Inl e)
                     | Inr params \<Rightarrow>
                         (case (if already_escaped
                                then re_lib (t0 @ ''(.*?)'' @ t1) content
                                else Inr (re_findall False
                                       (map Lit t0 @ [LazyGroup] @ map Lit t1) content)) of
                            Inl e \<Rightarrow> ([], Inl e)
                          | Inr all_params \<Rightarrow>
                              (case params_extract_eval_loop py_exec py_eval py_str path_arg
                                      (if ignore_import then ignore_import_filter content
                                       else content)
                                      all_params params [] [] of
                                 (printed, Inl e) \<Rightarrow> (printed, Inl e)
                               | (printed, Inr true_params) \<Rightarrow>
                                   (printed, Inr (sort (remdups (params @ true_params)))))))
                | _ \<Rightarrow> ([], Inl (IndexError ''list index out of range''))))"

text \<open>Interpreters used to run the model.\<close>

definition exec_raising :: "exception \<Rightarrow> string \<Rightarrow> string \<Rightarrow> unit \<times> exception option" where
  "exec_raising e filename content = ((), Some e)"

definition exec_normally :: "string \<Rightarrow> string \<Rightarrow> unit \<times> exception option" where
  "exec_normally filename content = ((), None)"

definition eval_raising :: "exception \<Rightarrow> unit \<Rightarrow> string \<Rightarrow> exception + string" where
  "eval_raising e pymodule expr = Inl e"

definition eval_returning :: "string \<Rightarrow> unit \<Rightarrow> string \<Rightarrow> exception + string" where
  "eval_returning v pymodule expr = Inr v"

text \<open>\<open>str\<close> of a value that is a string already, and of a value that cannot be formatted.\<close>

definition str_of_str :: "string \<Rightarrow> exception + string" where
  "str_of_str v = Inr v"

definition str_raising :: "exception \<Rightarrow> string \<Rightarrow> exception + string" where
  "str_raising e v = Inl e"

subsection \<open>What \<open>eval_param\<close> does with an exception of the executed content\<close>

lemma eval_param_unfold:
  assumes "rev (str_split path_arg CHR ''/'' None) = filename # dirs"
    and "CHR ''.'' \<in> set filename"
    and "py_exec (takeWhile (\<lambda>c. c \<noteq> CHR ''.'') filename) content = (pymodule, raised)"
  shows "eval_param py_exec py_eval py_str path_arg content param =
     (case (case raised of
              None \<Rightarrow> Inr []
            | Some e \<Rightarrow>
                if isinstance e ''ModuleNotFoundError''
                   \<or> isinstance e ''NameError''
                   \<or> isinstance e ''IndentationError''
                then Inr [message e @ '' '' @ [CHR 0x0A] @ ''Incompletely imported ''
                            @ takeWhile (\<lambda>c. c \<noteq> CHR ''.'') filename @ ''.'']
                else Inl e) of
        Inl e \<Rightarrow> ([], Inl e)
      | Inr printed \<Rightarrow>
          (case py_eval pymodule (''pymodule.'' @ param) of
             Inr true_param \<Rightarrow>
               (case py_str true_param of
                  Inl e \<Rightarrow> (printed, Inl e)
                | Inr shown \<Rightarrow> (printed @ [shown], Inr (param @ '' -> '' @ shown)))
           | Inl e \<Rightarrow>
               if isinstance e ''Exception''
               then (printed @ [message e, ''Reference cannot be resolved.'', ''???''],
                     Inr (param @ '' -> ???''))
               else (printed, Inl e)))"
  using assms by (simp add: eval_param_def)

lemma dummy_node_path:
  "rev (str_split ''ros1_test/dummy_node.py'' CHR ''/'' None) = [''dummy_node.py'', ''ros1_test'']"
  by (simp add: str_split_def)

text \<open>
  An exception raised while the value is formatted is outside both \<open>try\<close>
  statements: it ends \<open>eval_param\<close>, and no sentinel is produced.
\<close>

lemma eval_param_format_error:
  assumes "rev (str_split path_arg CHR ''/'' None) = filename # dirs"
    and "CHR ''.'' \<in> set filename"
    and "py_exec (takeWhile (\<lambda>c. c \<noteq> CHR ''.'') filename) content = (pymodule, None)"
    and "py_eval pymodule (''pymodule.'' @ param) = Inr v"
    and "py_str v = Inl e"
  shows "eval_param py_exec py_eval py_str path_arg content param = ([], Inl e)"
  using assms(4,5) by (simp add: eval_param_unfold [where py_exec = py_exec, OF assms(1-3)])

lemma eval_param_format_error_example:
  "eval_param exec_normally (eval_returning ''dummy'') (str_raising (ValueError ''bad value''))
     ''ros1_test/dummy_node.py'' ''x'' ''node_name'' = ([], Inl (ValueError ''bad value''))"
  by (simp add: eval_param_def str_split_def exec_normally_def eval_returning_def
        str_raising_def)

text \<open>
  C7 (as amended). For a path whose file name contains a dot, a missing-module,
  undefined-name or indentation error raised while the content is executed does
  not end \<open>eval_param\<close>: the lookup of the variable is attempted all the same.
  When the lookup yields a value that \<open>str\<close> formats, the result is
  \<open>name -> text\<close> with the text of the value; when the lookup itself fails with
  an \<open>Exception\<close> the result is \<open>name -> ???\<close>: the sentinel is the literal string
  \<open>???\<close>.
\<close>

theorem eval_param_sentinel:
  assumes "rev (str_split path_arg CHR ''/'' None) = filename # dirs"
    and "CHR ''.'' \<in> set filename"
    and "py_exec (takeWhile (\<lambda>c. c \<noteq> CHR ''.'') filename) content = (pymodule, raised)"
    and "raised = None
         \<or> (\<exists>e. raised = Some e
               \<and> (isinstance e ''ModuleNotFoundError'' \<or> isinstance e ''NameError''
                    \<or> isinstance e ''IndentationError''))"
  shows "(\<forall>v shown. py_eval pymodule (''pymodule.'' @ param) = Inr v \<and> py_str v = Inr shown \<longrightarrow>
            snd (eval_param py_exec py_eval py_str path_arg content param)
              = Inr (param @ '' -> '' @ shown))
       \<and> (\<forall>e. py_eval pymodule (''pymodule.'' @ param) = Inl e \<and> isinstance e ''Exception'' \<longrightarrow>
            snd (eval_param py_exec py_eval py_str path_arg content param)
              = Inr (param @ '' -> ???''))"
  using assms(4) by (auto simp: eval_param_unfold [where py_exec = py_exec, OF assms(1-3)])

theorem eval_param_sentinel_witness:
  "rev (str_split ''ros1_test/dummy_node.py'' CHR ''/'' None) = [''dummy_node.py'', ''ros1_test'']
   \<and> CHR ''.'' \<in> set ''dummy_node.py''
   \<and> exec_raising (NameError ''name x is not defined'')
          (takeWhile (\<lambda>c. c \<noteq> CHR ''.'') ''dummy_node.py'') ''x''
        = ((), Some (NameError ''name x is not defined''))
   \<and> isinstance (NameError ''name x is not defined'') ''NameError''
   \<and> eval_raising (AttributeError ''no attribute'') () ''pymodule.node_name''
        = Inl (AttributeError ''no attribute'')
   \<and> isinstance (AttributeError ''no attribute'') ''Exception''
   \<and> snd (eval_param (exec_raising (NameError ''name x is not defined''))
             (eval_raising (AttributeError ''no attribute'')) str_of_str
             ''ros1_test/dummy_node.py'' ''x'' ''node_name'') = Inr ''node_name -> ???''
   \<and> eval_returning ''dummy'' () ''pymodule.node_name'' = Inr ''dummy''
   \<and> str_of_str ''dummy'' = Inr ''dummy''
   \<and> snd (eval_param (exec_raising (NameError ''name x is not defined''))
             (eval_returning ''dummy'') str_of_str
             ''ros1_test/dummy_node.py'' ''x'' ''node_name'') = Inr ''node_name -> dummy''"
proof -
  let ?N = "NameError ''name x is not defined''"
  let ?A = "AttributeError ''no attribute''"
  have ex: "exec_raising ?N (takeWhile (\<lambda>c. c \<noteq> CHR ''.'') ''dummy_node.py'') ''x''
        = ((), Some ?N)"
    by (simp add: exec_raising_def)
  have dot: "CHR ''.'' \<in> set ''dummy_node.py''" by simp
  have caught: "isinstance ?N ''NameError''"
    by (simp add: isinstance_def NameError_def)
  then have r: "Some ?N = None
         \<or> (\<exists>e. Some ?N = Some e
               \<and> (isinstance e ''ModuleNotFoundError'' \<or> isinstance e ''NameError''
                    \<or> isinstance e ''IndentationError''))"
    by simp
  have ev: "eval_raising ?A () ''pymodule.node_name'' = Inl ?A"
    by (simp add: eval_raising_def)
  have exc: "isinstance ?A ''Exception''"
    by (simp add: isinstance_def AttributeError_def)
  have ok: "eval_returning ''dummy'' () ''pymodule.node_name'' = Inr ''dummy''"
    by (simp add: eval_returning_def)
  have str: "str_of_str ''dummy'' = Inr ''dummy''"
    by (simp add: str_of_str_def)
  from eval_param_sentinel
      [where py_exec = "exec_raising ?N" and py_eval = "eval_raising ?A"
         and py_str = str_of_str and param = "''node_name''",
        OF dummy_node_path dot ex r] ev exc
  have unresolved: "snd (eval_param (exec_raising ?N) (eval_raising ?A) str_of_str
             ''ros1_test/dummy_node.py'' ''x'' ''node_name'') = Inr ''node_name -> ???''"
    by simp
  from eval_param_sentinel
      [where py_exec = "exec_raising ?N" and py_eval = "eval_returning ''dummy''"
         and py_str = str_of_str and param = "''node_name''",
        OF dummy_node_path dot ex r] ok str
  have resolved: "snd (eval_param (exec_raising ?N) (eval_returning ''dummy'') str_of_str
             ''ros1_test/dummy_node.py'' ''x'' ''node_name'') = Inr ''node_name -> dummy''"
    by simp
  from dummy_node_path dot ex caught ev exc unresolved ok str resolved
  show ?thesis by (intro conjI)
qed

text \<open>
  The claim as written names the sentinel \<open><unresolved>\<close>; the source assigns
  \<open>"???"\<close>.
\<close>

theorem eval_param_unresolved_counterexample:
  "snd (eval_param (exec_raising (NameError ''name x is not defined''))
          (eval_raising (AttributeError ''no attribute'')) str_of_str
          ''ros1_test/dummy_node.py'' ''x'' ''node_name'') = Inr ''node_name -> ???''
   \<and> snd (eval_param (exec_raising (NameError ''name x is not defined''))
          (eval_raising (AttributeError ''no attribute'')) str_of_str
          ''ros1_test/dummy_node.py'' ''x'' ''node_name'') \<noteq> Inr ''node_name -> <unresolved>''"
  by (simp add: eval_param_def str_split_def exec_raising_def eval_raising_def
        isinstance_def NameError_def AttributeError_def)

lemma params_extract_eval_loop_raises:
  assumes "\<And>param. eval_param py_exec py_eval py_str path_arg content param = ([], Inl e)"
  shows "\<exists>param \<in> set all_params. param \<notin> set params \<Longrightarrow>
         params_extract_eval_loop py_exec py_eval py_str path_arg content all_params params
           true_params printed = (printed, Inl e)"
  by (induction all_params arbitrary: true_params printed) (auto simp: assms)

text \<open>
  C10. Of the exceptions raised while the content is executed, \<open>eval_param\<close>
  catches \<open>ModuleNotFoundError\<close>, \<open>NameError\<close> and \<open>IndentationError\<close>: it prints
  the message and goes on as if the execution had ended normally. Any other
  exception leaves \<open>eval_param\<close>, with nothing printed and no sentinel, and
  \<open>params_extract_eval\<close>, which calls \<open>eval_param\<close> for a span that is not a quoted
  name, ends with the same exception instead of a result.
\<close>

theorem eval_param_uncaught_propagates:
  assumes "rev (str_split path_arg CHR ''/'' None) = filename # dirs"
    and "CHR ''.'' \<in> set filename"
    and "py_exec (takeWhile (\<lambda>c. c \<noteq> CHR ''.'') filename) content = (pymodule, Some e)"
  shows "(isinstance e ''ModuleNotFoundError'' \<or> isinstance e ''NameError''
            \<or> isinstance e ''IndentationError'' \<longrightarrow>
          (\<exists>printed. fst (eval_param py_exec py_eval py_str path_arg content param) =
             (message e @ '' '' @ [CHR 0x0A] @ ''Incompletely imported ''
                @ takeWhile (\<lambda>c. c \<noteq> CHR ''.'') filename @ ''.'') # printed)
          \<and> snd (eval_param py_exec py_eval py_str path_arg content param) =
              snd (eval_param (\<lambda>filename content. (pymodule, None)) py_eval py_str
                     path_arg content param))
       \<and> (\<not> isinstance e ''ModuleNotFoundError'' \<and> \<not> isinstance e ''NameError''
            \<and> \<not> isinstance e ''IndentationError'' \<longrightarrow>
          eval_param py_exec py_eval py_str path_arg content param = ([], Inl e)
          \<and> (\<forall>g re_lib fetched t0 t1 ignore_import.
                read_file g path_arg = Some (Inr fetched)
                \<and> content = (if ignore_import then ignore_import_filter fetched else fetched)
                \<and> (\<exists>param \<in> set (re_findall False (map Lit t0 @ [LazyGroup] @ map Lit t1) fetched).
                      param \<notin> set (re_findall False
                        (map Lit t0 @ [In quotes, LazyGroup, In quotes] @ map Lit t1) fetched))
                \<longrightarrow> params_extract_eval g re_lib py_exec py_eval py_str [t0, t1] path_arg False
                      ignore_import = Some ([], Inl e)))"
proof (intro conjI impI allI)
  assume c: "isinstance e ''ModuleNotFoundError'' \<or> isinstance e ''NameError''
            \<or> isinstance e ''IndentationError''"
  show "\<exists>printed. fst (eval_param py_exec py_eval py_str path_arg content param) =
             (message e @ '' '' @ [CHR 0x0A] @ ''Incompletely imported ''
                @ takeWhile (\<lambda>c. c \<noteq> CHR ''.'') filename @ ''.'') # printed"
    using c by (auto simp: eval_param_unfold [where py_exec = py_exec, OF assms(1-3)] split: sum.splits)
  have none: "(\<lambda>filename content. (pymodule, None :: exception option))
      (takeWhile (\<lambda>c. c \<noteq> CHR ''.'') filename) content = (pymodule, None)"
    by simp
  show "snd (eval_param py_exec py_eval py_str path_arg content param) =
              snd (eval_param (\<lambda>filename content. (pymodule, None)) py_eval py_str
                     path_arg content param)"
    using c
    by (auto simp: eval_param_unfold [where py_exec = py_exec, OF assms(1-3)] eval_param_unfold [where py_exec = "\<lambda>filename content. (pymodule, None)", OF assms(1-2) none]
          split: sum.splits)
next
  assume n: "\<not> isinstance e ''ModuleNotFoundError'' \<and> \<not> isinstance e ''NameError''
            \<and> \<not> isinstance e ''IndentationError''"
  then show "eval_param py_exec py_eval py_str path_arg content param = ([], Inl e)"
    by (simp add: eval_param_unfold [where py_exec = py_exec, OF assms(1-3)])
next
  fix g :: github and re_lib fetched t0 t1 ignore_import
  assume n: "\<not> isinstance e ''ModuleNotFoundError'' \<and> \<not> isinstance e ''NameError''
            \<and> \<not> isinstance e ''IndentationError''"
  assume h: "read_file g path_arg = Some (Inr fetched)
                \<and> content = (if ignore_import then ignore_import_filter fetched else fetched)
                \<and> (\<exists>param \<in> set (re_findall False (map Lit t0 @ [LazyGroup] @ map Lit t1) fetched).
                      param \<notin> set (re_findall False
                        (map Lit t0 @ [In quotes, LazyGroup, In quotes] @ map Lit t1) fetched))"
  have all: "\<And>param. eval_param py_exec py_eval py_str path_arg content param = ([], Inl e)"
    using n by (simp add: eval_param_unfold [where py_exec = py_exec, OF assms(1-3)])
  from h have ex: "\<exists>param \<in> set (re_findall False (map Lit t0 @ [LazyGroup] @ map Lit t1) fetched).
       param \<notin> set (re_findall False
          (map Lit t0 @ [In quotes, LazyGroup, In quotes] @ map Lit t1) fetched)"
    by simp
  have loop: "params_extract_eval_loop py_exec py_eval py_str path_arg content
      (re_findall False (map Lit t0 @ [LazyGroup] @ map Lit t1) fetched)
      (re_findall False (map Lit t0 @ [In quotes, LazyGroup, In quotes] @ map Lit t1) fetched)
      [] [] = ([], Inl e)"
    by (rule params_extract_eval_loop_raises [OF all ex])
  from h have rf: "read_file g path_arg = Some (Inr fetched)"
    and c: "(if ignore_import then ignore_import_filter fetched else fetched) = content"
    by simp_all
  show "params_extract_eval g re_lib py_exec py_eval py_str [t0, t1] path_arg False ignore_import
          = Some ([], Inl e)"
    by (simp only: params_extract_eval_def rf c loop option.case sum.case list.case
          if_False prod.case)
qed

lemma dummy_node_path3:
  "rev (str_split ''o/ros1_test/dummy_node.py'' CHR ''/'' None)
     = [''dummy_node.py'', ''ros1_test'', ''o'']"
  by (simp add: str_split_def)

lemma read_file_dummy_node:
  "read_file (files_github [(''o/ros1_test/dummy_node.py'', ''obs[name]'')])
     ''o/ros1_test/dummy_node.py'' = Some (Inr ''obs[name]'')"
  using read_file_files_github
    [of "[(''o/ros1_test/dummy_node.py'', ''obs[name]'')]" "''o''" "''ros1_test''"
        "''dummy_node.py''"]
  by simp

theorem eval_param_uncaught_propagates_witness:
  "rev (str_split ''o/ros1_test/dummy_node.py'' CHR ''/'' None)
     = [''dummy_node.py'', ''ros1_test'', ''o'']
   \<and> CHR ''.'' \<in> set ''dummy_node.py''
   \<and> \<not> isinstance (ZeroDivisionError ''division by zero'') ''ModuleNotFoundError''
   \<and> \<not> isinstance (ZeroDivisionError ''division by zero'') ''NameError''
   \<and> \<not> isinstance (ZeroDivisionError ''division by zero'') ''IndentationError''
   \<and> eval_param (exec_raising (ZeroDivisionError ''division by zero''))
        (eval_raising (AttributeError ''no attribute'')) str_of_str
        ''o/ros1_test/dummy_node.py'' ''obs[name]'' ''name''
       = ([], Inl (ZeroDivisionError ''division by zero''))
   \<and> read_file (files_github [(''o/ros1_test/dummy_node.py'', ''obs[name]'')])
        ''o/ros1_test/dummy_node.py'' = Some (Inr ''obs[name]'')
   \<and> re_findall False (map Lit ''obs['' @ [LazyGroup] @ map Lit '']'') ''obs[name]'' = [''name'']
   \<and> re_findall False (map Lit ''obs['' @ [In quotes, LazyGroup, In quotes] @ map Lit '']'')
        ''obs[name]'' = []
   \<and> params_extract_eval (files_github [(''o/ros1_test/dummy_node.py'', ''obs[name]'')])
        no_re_lib (exec_raising (ZeroDivisionError ''division by zero''))
        (eval_raising (AttributeError ''no attribute'')) str_of_str
        [''obs['', '']''] ''o/ros1_test/dummy_node.py'' False False
       = Some ([], Inl (ZeroDivisionError ''division by zero''))
   \<and> isinstance (NameError ''name x is not defined'') ''NameError''
   \<and> fst (eval_param (exec_raising (NameError ''name x is not defined''))
        (eval_raising (AttributeError ''no attribute'')) str_of_str
        ''o/ros1_test/dummy_node.py'' ''obs[name]'' ''name'')
       = [''name x is not defined '' @ [CHR 0x0A] @ ''Incompletely imported dummy_node.'',
          ''no attribute'', ''Reference cannot be resolved.'', ''???'']"
proof -
  let ?Z = "ZeroDivisionError ''division by zero''"
  let ?N = "NameError ''name x is not defined''"
  let ?P = "''o/ros1_test/dummy_node.py''"
  let ?ev = "eval_raising (AttributeError ''no attribute'')"
  have dot: "CHR ''.'' \<in> set ''dummy_node.py''" by simp
  have exZ: "exec_raising ?Z (takeWhile (\<lambda>c. c \<noteq> CHR ''.'') ''dummy_node.py'') ''obs[name]''
      = ((), Some ?Z)"
    by (simp add: exec_raising_def)
  have exN: "exec_raising ?N (takeWhile (\<lambda>c. c \<noteq> CHR ''.'') ''dummy_node.py'') ''obs[name]''
      = ((), Some ?N)"
    by (simp add: exec_raising_def)
  have n1: "\<not> isinstance ?Z ''ModuleNotFoundError''"
    and n2: "\<not> isinstance ?Z ''NameError''"
    and n3: "\<not> isinstance ?Z ''IndentationError''"
    by (simp_all add: isinstance_def ZeroDivisionError_def)
  have c: "isinstance ?N ''NameError''" by (simp add: isinstance_def NameError_def)
  have all: "re_findall False (map Lit ''obs['' @ [LazyGroup] @ map Lit '']'') ''obs[name]''
      = [''name'']"
    by (simp add: re_findall.simps)
  have quoted: "re_findall False
      (map Lit ''obs['' @ [In quotes, LazyGroup, In quotes] @ map Lit '']'') ''obs[name]'' = []"
    by (simp add: re_findall.simps quotes_def)
  note Z = eval_param_uncaught_propagates
    [where py_exec = "exec_raising ?Z" and py_eval = ?ev
       and py_str = str_of_str and param = "''name''",
      OF dummy_node_path3 dot exZ]
  note U = Z [THEN conjunct2, THEN mp, OF conjI [OF n1 conjI [OF n2 n3]]]
  note run = U [THEN conjunct1]
  note batch = U [THEN conjunct2]
  have pre: "read_file (files_github [(?P, ''obs[name]'')]) ?P = Some (Inr ''obs[name]'')
        \<and> ''obs[name]'' = (if False then ignore_import_filter ''obs[name]'' else ''obs[name]'')
        \<and> (\<exists>param \<in> set (re_findall False (map Lit ''obs['' @ [LazyGroup] @ map Lit '']'')
                ''obs[name]'').
              param \<notin> set (re_findall False
                (map Lit ''obs['' @ [In quotes, LazyGroup, In quotes] @ map Lit '']'')
                ''obs[name]''))"
    by (simp only: all quoted read_file_dummy_node) simp
  from batch [rule_format, OF pre, of no_re_lib]
  have abort: "params_extract_eval (files_github [(?P, ''obs[name]'')]) no_re_lib
      (exec_raising ?Z) ?ev str_of_str [''obs['', '']''] ?P False False = Some ([], Inl ?Z)" .
  note N = eval_param_uncaught_propagates
    [where py_exec = "exec_raising ?N" and py_eval = ?ev
       and py_str = str_of_str and param = "''name''",
      OF dummy_node_path3 dot exN]
  have logged: "fst (eval_param (exec_raising ?N) ?ev str_of_str ?P ''obs[name]'' ''name'')
       = [''name x is not defined '' @ [CHR 0x0A] @ ''Incompletely imported dummy_node.'',
          ''no attribute'', ''Reference cannot be resolved.'', ''???'']"
    using N c
    by (simp add: eval_param_def str_split_def exec_raising_def eval_raising_def
        isinstance_def NameError_def AttributeError_def)
  from dummy_node_path3 dot n1 n2 n3 run read_file_dummy_node all quoted abort c logged
  show ?thesis by (intro conjI)
qed

section \<open>Launch-Graph Resolver: \<open>list_from_launch\<close>\<close>

text \<open>
  An \<open>xml.etree.ElementTree\<close> element, as far as the code reads it: its tag, its
  attributes and its child elements in document order. The parser is a parameter
  of the model: \<open>fromstring code\<close> is \<open>ET.fromstring(code)\<close>, the root element or
  the exception raised.
\<close>

datatype element = Element (tag: string) (attrib: "(string \<times> string) list")
  (children: "element list")

text \<open>
  \<open>node.iter()\<close>: the element itself and then everything below it, in document
  order. \<open>node.iter("remap")\<close> keeps the elements of that tag.
\<close>

fun iter :: "element \<Rightarrow> element list" where
  "iter (Element t a cs) = Element t a cs # concat (map iter cs)"

text \<open>
  The dict built for one node: the value of \<open>"type"\<close> (\<open>None\<close> when the attribute
  is missing) and the list under \<open>"remap"\<close>, a one-entry dict \<open>{from: to}\<close> being
  the pair of its key and its value.
\<close>

datatype launch_node =
  LaunchNode (node_type: "string option") (remap: "(string option \<times> string option) list")

definition launch_node_of :: "element \<Rightarrow> launch_node" where
  "launch_node_of node =
     LaunchNode (map_of (attrib node) ''type'')
       (map (\<lambda>remap. (map_of (attrib remap) ''from'', map_of (attrib remap) ''to''))
          (filter (\<lambda>e. tag e = ''remap'') (iter node)))"

text \<open>
  The worklist loop. Next to its result the model returns the paths handed to
  \<open>read_file\<close>, in the order of the calls. An include cycle keeps the loop
  running for ever: the value \<open>None\<close>.
\<close>

partial_function (option) list_from_launch_loop ::
  "github \<Rightarrow> (string \<Rightarrow> exception + element) \<Rightarrow> string \<Rightarrow> string
     \<Rightarrow> element list \<Rightarrow> element list \<Rightarrow> ((exception + element list) \<times> string list) option"
where
  "list_from_launch_loop g fromstring user repository elements nodes =
     (case elements of
        [] \<Rightarrow> Some (Inr nodes, [])
      | child # rest \<Rightarrow>
          if tag child = ''include''
          then (case map_of (attrib child) ''file'' of
                  None \<Rightarrow>
                    Some (Inl (AttributeError
                            ([CHR 0x27] @ ''NoneType'' @ [CHR 0x27]
                               @ '' object has no attribute '' @ [CHR 0x27] @ ''split''
                               @ [CHR 0x27])), [])
                | Some file \<Rightarrow>
                    (case str_split file CHR ''/'' (Some 1) of
                       _ # launch_path # _ \<Rightarrow>
                         (let launch_path = user @ ''/'' @ repository @ ''/'' @ launch_path in
                          case read_file g launch_path of
                            None \<Rightarrow> None
                          | Some (Inl e) \<Rightarrow> Some (Inl e, [launch_path])
                          | Some (Inr code) \<Rightarrow>
                              (case fromstring code of
                                 Inl e \<Rightarrow> Some (Inl e, [launch_path])
                               | Inr root \<Rightarrow>
                                   Option.bind
                                     (list_from_launch_loop g fromstring user repository
                                        (rest @ children root) nodes)
                                     (\<lambda>(r, fetched). Some (r, launch_path # fetched))))
                     | _ \<Rightarrow> Some (Inl (IndexError ''list index out of range''), [])))
          else list_from_launch_loop g fromstring user repository rest (nodes @ [child]))"

declare list_from_launch_loop.simps [code]

definition list_from_launch ::
  "github \<Rightarrow> (string \<Rightarrow> exception + element) \<Rightarrow> string
     \<Rightarrow> ((exception + launch_node list) \<times> string list) option"
where
  "list_from_launch g fromstring path_arg =
     (if drop (length path_arg - 7) path_arg \<noteq> ''.launch'' then Some (Inr [], [])
      else
        (case read_file g path_arg of
           None \<Rightarrow> None
         | Some (Inl e) \<Rightarrow> Some (Inl e, [path_arg])
         | Some (Inr code) \<Rightarrow>
             (case str_split path_arg CHR ''/'' (Some 2) of
                user # repository # file_path # _ \<Rightarrow>
                  (case fromstring code of
                     Inl e \<Rightarrow> Some (Inl e, [path_arg])
                   | Inr root \<Rightarrow>
                       (case list_from_launch_loop g fromstring user repository
                               (children root) [] of
                          None \<Rightarrow> None
                        | Some (Inl e, fetched) \<Rightarrow> Some (Inl e, path_arg # fetched)
                        | Some (Inr nodes, fetched) \<Rightarrow>
                            Some (Inr (map launch_node_of nodes), path_arg # fetched)))
              | _ \<Rightarrow> Some (Inl (IndexError ''list index out of range''), [path_arg]))))"

text \<open>A parser used to run the model: it knows the elements of the listed texts.\<close>

definition table_fromstring :: "(string \<times> element) list \<Rightarrow> string \<Rightarrow> exception + element" where
  "table_fromstring table code =
     (case map_of table code of
        Some root \<Rightarrow> Inr root
      | None \<Rightarrow> Inl (PyExc [''ParseError'', ''SyntaxError'', ''Exception'', ''BaseException'']
                       ''syntax error''))"

definition main_launch :: element where
  "main_launch = Element ''launch'' []
     [Element ''include'' [(''file'', ''$(find pkg)/launch/sub.launch'')] []]"

definition sub_launch :: element where
  "sub_launch = Element ''launch'' []
     [Element ''node'' [(''pkg'', ''p''), (''type'', ''n.py'')]
        [Element ''remap'' [(''from'', ''x''), (''to'', ''y'')] []],
      Element ''remap'' [(''from'', ''a''), (''to'', ''b'')] []]"

subsection \<open>Running the resolver\<close>

lemma list_from_launch_loop_no_include:
  "\<forall>c \<in> set elements. tag c \<noteq> ''include'' \<Longrightarrow>
   list_from_launch_loop g fromstring user repository elements nodes =
     Some (Inr (nodes @ elements), [])"
proof (induction elements arbitrary: nodes)
  case Nil
  show ?case by (subst list_from_launch_loop.simps) simp
next
  case (Cons c cs)
  then have "list_from_launch_loop g fromstring user repository cs (nodes @ [c]) =
      Some (Inr ((nodes @ [c]) @ cs), [])"
    by simp
  with Cons.prems show ?case by (subst list_from_launch_loop.simps) simp
qed

lemma list_from_launch_loop_include:
  assumes "tag child = ''include''"
    and "map_of (attrib child) ''file'' = Some file"
    and "str_split file CHR ''/'' (Some 1) = [segment, sub_path]"
    and "read_file g (user @ ''/'' @ repository @ ''/'' @ sub_path) = Some (Inr code)"
    and "fromstring code = Inr root"
  shows "list_from_launch_loop g fromstring user repository (child # rest) nodes =
     (case list_from_launch_loop g fromstring user repository (rest @ children root) nodes of
        None \<Rightarrow> None
      | Some (r, fetched) \<Rightarrow>
          Some (r, (user @ ''/'' @ repository @ ''/'' @ sub_path) # fetched))"
  using assms
  by (subst list_from_launch_loop.simps) (simp split: option.splits prod.splits)

lemma list_from_launch_run:
  assumes "drop (length path_arg - 7) path_arg = ''.launch''"
    and "read_file g path_arg = Some (Inr code)"
    and "str_split path_arg CHR ''/'' (Some 2) = [user, repository, file_path]"
    and "fromstring code = Inr root"
  shows "list_from_launch g fromstring path_arg =
     (case list_from_launch_loop g fromstring user repository (children root) [] of
        None \<Rightarrow> None
      | Some (r, fetched) \<Rightarrow>
          Some (case r of Inl e \<Rightarrow> Inl e | Inr nodes \<Rightarrow> Inr (map launch_node_of nodes),
                path_arg # fetched))"
  using assms by (simp add: list_from_launch_def split: option.splits prod.splits sum.splits)

lemma split_acc_not_Nil: "split_acc c m cur s \<noteq> []"
  by (induction s arbitrary: cur m) simp_all

lemma split_acc_pieces:
  "c \<notin> set cur \<Longrightarrow> p \<in> set (butlast (split_acc c m cur s)) \<Longrightarrow> c \<notin> set p"
proof (induction s arbitrary: cur m)
  case Nil
  then show ?case by simp
next
  case (Cons x xs)
  show ?case
  proof (cases "x = c \<and> m \<noteq> Some 0")
    case True
    have ne: "split_acc c (map_option (\<lambda>n. n - 1) m) [] xs \<noteq> []"
      by (rule split_acc_not_Nil)
    from Cons.prems(2) True ne
    have "p = cur \<or> p \<in> set (butlast (split_acc c (map_option (\<lambda>n. n - 1) m) [] xs))"
      by simp
    then show ?thesis
    proof
      assume "p = cur" with Cons.prems(1) show ?thesis by simp
    next
      assume "p \<in> set (butlast (split_acc c (map_option (\<lambda>n. n - 1) m) [] xs))"
      with Cons.IH [of "[]"] show ?thesis by simp
    qed
  next
    case False
    show ?thesis
    proof (cases "x = c")
      case True
      with False have m: "m = Some 0" by simp
      with Cons.prems(2) show ?thesis by (simp add: split_acc_zero)
    next
      case ne: False
      with Cons.prems(1) have "c \<notin> set (cur @ [x])" by auto
      moreover from Cons.prems(2) False
      have "p \<in> set (butlast (split_acc c m (cur @ [x]) xs))" by auto
      ultimately show ?thesis by (rule Cons.IH)
    qed
  qed
qed

lemma str_split3_no_sep:
  assumes "str_split s c (Some 2) = [u, r, f]"
  shows "c \<notin> set u \<and> c \<notin> set r"
proof -
  have "\<And>p. p \<in> set (butlast (split_acc c (Some 2) [] s)) \<Longrightarrow> c \<notin> set p"
    by (rule split_acc_pieces) simp_all
  with assms show ?thesis by (simp add: str_split_def)
qed

lemma iter_self_descendants: "iter node = node # concat (map iter (children node))"
  by (cases node) simp

text \<open>
  C6 (as amended). For a path that does not end in \<open>.launch\<close> the result is the
  empty list and nothing is fetched. For a path \<open>owner/repository/file.launch\<close>
  whose content is fetched and parsed: when no child of the root is an
  \<open>include\<close>, the result holds one descriptor for each child, in order, and only the
  file itself was fetched; when the only child is an \<open>include\<close> whose \<open>file\<close>
  attribute has a \<open>/\<close>, the included file is fetched at owner, repository and
  the text behind the first \<open>/\<close> of the attribute, and the result is what the
  worklist yields from the children of the included root, which is the result of
  \<open>list_from_launch\<close> on the included file when its path ends in \<open>.launch\<close>. A
  descriptor takes \<open>type\<close> from the node's attribute and \<open>remap\<close> from the \<open>remap\<close>
  elements among the node itself and its descendants, in document order.
\<close>

theorem list_from_launch_resolves:
  "(drop (length path_arg - 7) path_arg \<noteq> ''.launch'' \<longrightarrow>
      list_from_launch g fromstring path_arg = Some (Inr [], []))
   \<and> (drop (length path_arg - 7) path_arg = ''.launch''
        \<and> read_file g path_arg = Some (Inr code)
        \<and> str_split path_arg CHR ''/'' (Some 2) = [user, repository, file_path]
        \<and> fromstring code = Inr root \<longrightarrow>
      ((\<forall>c \<in> set (children root). tag c \<noteq> ''include'') \<longrightarrow>
         list_from_launch g fromstring path_arg =
           Some (Inr (map launch_node_of (children root)), [path_arg]))
      \<and> (\<forall>inc file_attr segment sub_path code' root'.
            children root = [inc] \<and> tag inc = ''include''
            \<and> map_of (attrib inc) ''file'' = Some file_attr
            \<and> str_split file_attr CHR ''/'' (Some 1) = [segment, sub_path]
            \<and> read_file g (user @ ''/'' @ repository @ ''/'' @ sub_path) = Some (Inr code')
            \<and> fromstring code' = Inr root' \<longrightarrow>
            list_from_launch g fromstring path_arg =
              (case list_from_launch_loop g fromstring user repository (children root') [] of
                 None \<Rightarrow> None
               | Some (r, fetched) \<Rightarrow>
                   Some (case r of Inl e \<Rightarrow> Inl e | Inr nodes \<Rightarrow> Inr (map launch_node_of nodes),
                         path_arg # (user @ ''/'' @ repository @ ''/'' @ sub_path) # fetched))
            \<and> ((\<forall>c \<in> set (children root'). tag c \<noteq> ''include'') \<longrightarrow>
                 list_from_launch g fromstring path_arg =
                   Some (Inr (map launch_node_of (children root')),
                         [path_arg, user @ ''/'' @ repository @ ''/'' @ sub_path]))
            \<and> (drop (length (user @ ''/'' @ repository @ ''/'' @ sub_path) - 7)
                   (user @ ''/'' @ repository @ ''/'' @ sub_path) = ''.launch'' \<longrightarrow>
                 map_option fst (list_from_launch g fromstring path_arg) =
                 map_option fst (list_from_launch g fromstring
                                   (user @ ''/'' @ repository @ ''/'' @ sub_path)))))
   \<and> (\<forall>node. launch_node_of node =
          LaunchNode (map_of (attrib node) ''type'')
            (map (\<lambda>remap. (map_of (attrib remap) ''from'', map_of (attrib remap) ''to''))
               (filter (\<lambda>e. tag e = ''remap'') (node # concat (map iter (children node))))))"
proof (intro conjI impI allI)
  assume "drop (length path_arg - 7) path_arg \<noteq> ''.launch''"
  then show "list_from_launch g fromstring path_arg = Some (Inr [], [])"
    by (simp add: list_from_launch_def)
next
  assume h: "drop (length path_arg - 7) path_arg = ''.launch''
        \<and> read_file g path_arg = Some (Inr code)
        \<and> str_split path_arg CHR ''/'' (Some 2) = [user, repository, file_path]
        \<and> fromstring code = Inr root"
  assume n: "\<forall>c \<in> set (children root). tag c \<noteq> ''include''"
  have run: "list_from_launch g fromstring path_arg =
     (case list_from_launch_loop g fromstring user repository (children root) [] of
        None \<Rightarrow> None
      | Some (r, fetched) \<Rightarrow>
          Some (case r of Inl e \<Rightarrow> Inl e | Inr nodes \<Rightarrow> Inr (map launch_node_of nodes),
                path_arg # fetched))"
    by (rule list_from_launch_run
          [where fromstring = fromstring, OF h [THEN conjunct1] h [THEN conjunct2, THEN conjunct1]
              h [THEN conjunct2, THEN conjunct2, THEN conjunct1]
              h [THEN conjunct2, THEN conjunct2, THEN conjunct2]])
  show "list_from_launch g fromstring path_arg =
           Some (Inr (map launch_node_of (children root)), [path_arg])"
    by (simp add: run list_from_launch_loop_no_include [OF n])
next
  fix inc file_attr segment sub_path code' root'
  let ?lp = "user @ ''/'' @ repository @ ''/'' @ sub_path"
  assume h: "drop (length path_arg - 7) path_arg = ''.launch''
        \<and> read_file g path_arg = Some (Inr code)
        \<and> str_split path_arg CHR ''/'' (Some 2) = [user, repository, file_path]
        \<and> fromstring code = Inr root"
  assume i: "children root = [inc] \<and> tag inc = ''include''
            \<and> map_of (attrib inc) ''file'' = Some file_attr
            \<and> str_split file_attr CHR ''/'' (Some 1) = [segment, sub_path]
            \<and> read_file g ?lp = Some (Inr code')
            \<and> fromstring code' = Inr root'"
  have run: "list_from_launch g fromstring path_arg =
     (case list_from_launch_loop g fromstring user repository (children root) [] of
        None \<Rightarrow> None
      | Some (r, fetched) \<Rightarrow>
          Some (case r of Inl e \<Rightarrow> Inl e | Inr nodes \<Rightarrow> Inr (map launch_node_of nodes),
                path_arg # fetched))"
    by (rule list_from_launch_run
          [where fromstring = fromstring, OF h [THEN conjunct1] h [THEN conjunct2, THEN conjunct1]
              h [THEN conjunct2, THEN conjunct2, THEN conjunct1]
              h [THEN conjunct2, THEN conjunct2, THEN conjunct2]])
  have step: "list_from_launch_loop g fromstring user repository (inc # []) [] =
     (case list_from_launch_loop g fromstring user repository ([] @ children root') [] of
        None \<Rightarrow> None
      | Some (r, fetched) \<Rightarrow> Some (r, ?lp # fetched))"
    by (rule list_from_launch_loop_include
          [where fromstring = fromstring, OF i [THEN conjunct2, THEN conjunct1]
              i [THEN conjunct2, THEN conjunct2, THEN conjunct1]
              i [THEN conjunct2, THEN conjunct2, THEN conjunct2, THEN conjunct1]
              i [THEN conjunct2, THEN conjunct2, THEN conjunct2, THEN conjunct2, THEN conjunct1]
              i [THEN conjunct2, THEN conjunct2, THEN conjunct2, THEN conjunct2, THEN conjunct2]])
  note cs = i [THEN conjunct1]
  show incl: "list_from_launch g fromstring path_arg =
              (case list_from_launch_loop g fromstring user repository (children root') [] of
                 None \<Rightarrow> None
               | Some (r, fetched) \<Rightarrow>
                   Some (case r of Inl e \<Rightarrow> Inl e | Inr nodes \<Rightarrow> Inr (map launch_node_of nodes),
                         path_arg # ?lp # fetched))"
    by (simp add: run cs step split: option.splits prod.splits)
  show "list_from_launch g fromstring path_arg =
          Some (Inr (map launch_node_of (children root')), [path_arg, ?lp])"
    if n: "\<forall>c \<in> set (children root'). tag c \<noteq> ''include''"
    by (simp add: incl list_from_launch_loop_no_include [OF n])
  show "map_option fst (list_from_launch g fromstring path_arg) =
        map_option fst (list_from_launch g fromstring ?lp)"
    if e: "drop (length ?lp - 7) ?lp = ''.launch''"
  proof -
    have "CHR ''/'' \<notin> set user \<and> CHR ''/'' \<notin> set repository"
      by (rule str_split3_no_sep [OF h [THEN conjunct2, THEN conjunct2, THEN conjunct1]])
    then have sp: "str_split ?lp CHR ''/'' (Some 2) = [user, repository, sub_path]"
      using str_split_path3 [of user repository sub_path] by simp
    note rf = i [THEN conjunct2, THEN conjunct2, THEN conjunct2, THEN conjunct2, THEN conjunct1]
    note fs = i [THEN conjunct2, THEN conjunct2, THEN conjunct2, THEN conjunct2, THEN conjunct2]
    have "list_from_launch g fromstring ?lp =
       (case list_from_launch_loop g fromstring user repository (children root') [] of
          None \<Rightarrow> None
        | Some (r, fetched) \<Rightarrow>
            Some (case r of Inl e \<Rightarrow> Inl e | Inr nodes \<Rightarrow> Inr (map launch_node_of nodes),
                  ?lp # fetched))"
      by (rule list_from_launch_run [where fromstring = fromstring, OF e rf sp fs])
    with incl show ?thesis
      by (simp split: option.splits prod.splits)
  qed
next
  fix node
  show "launch_node_of node =
          LaunchNode (map_of (attrib node) ''type'')
            (map (\<lambda>remap. (map_of (attrib remap) ''from'', map_of (attrib remap) ''to''))
               (filter (\<lambda>e. tag e = ''remap'') (node # concat (map iter (children node)))))"
    by (simp only: launch_node_of_def iter_self_descendants [symmetric])
qed

text \<open>A repository with three launch files, to run the resolver.\<close>

definition launch_github :: github where
  "launch_github =
     files_github [(''o/r/main.launch'', ''A''), (''o/r/launch/sub.launch'', ''B''),
                   (''o/r/remap.launch'', ''C'')]"

definition remap_launch :: element where
  "remap_launch = Element ''launch'' []
     [Element ''remap'' [(''from'', ''a''), (''to'', ''b'')] []]"

definition launch_fromstring :: "string \<Rightarrow> exception + element" where
  "launch_fromstring =
     table_fromstring [(''A'', main_launch), (''B'', sub_launch), (''C'', remap_launch)]"

lemma read_file_main_launch:
  "read_file launch_github ''o/r/main.launch'' = Some (Inr ''A'')"
  unfolding launch_github_def
  using read_file_files_github [of _ "''o''" "''r''" "''main.launch''" "''A''"] by simp

lemma read_file_sub_launch:
  "read_file launch_github (''o'' @ ''/'' @ ''r'' @ ''/'' @ ''launch/sub.launch'') = Some (Inr ''B'')"
  unfolding launch_github_def
  using read_file_files_github [of _ "''o''" "''r''" "''launch/sub.launch''" "''B''"] by simp

lemma read_file_remap_launch:
  "read_file launch_github ''o/r/remap.launch'' = Some (Inr ''C'')"
  unfolding launch_github_def
  using read_file_files_github [of _ "''o''" "''r''" "''remap.launch''" "''C''"] by simp

theorem list_from_launch_resolves_witness:
  "drop (length ''o/r/readme.md'' - 7) ''o/r/readme.md'' \<noteq> ''.launch''
   \<and> list_from_launch launch_github launch_fromstring ''o/r/readme.md'' = Some (Inr [], [])
   \<and> read_file launch_github ''o/r/launch/sub.launch'' = Some (Inr ''B'')
   \<and> launch_fromstring ''B'' = Inr sub_launch
   \<and> list_from_launch launch_github launch_fromstring ''o/r/launch/sub.launch'' =
       Some (Inr [LaunchNode (Some ''n.py'') [(Some ''x'', Some ''y'')],
                  LaunchNode None [(Some ''a'', Some ''b'')]],
             [''o/r/launch/sub.launch''])
   \<and> read_file launch_github ''o/r/main.launch'' = Some (Inr ''A'')
   \<and> launch_fromstring ''A'' = Inr main_launch
   \<and> children main_launch =
       [Element ''include'' [(''file'', ''$(find pkg)/launch/sub.launch'')] []]
   \<and> str_split ''$(find pkg)/launch/sub.launch'' CHR ''/'' (Some 1)
       = [''$(find pkg)'', ''launch/sub.launch'']
   \<and> list_from_launch launch_github launch_fromstring ''o/r/main.launch'' =
       Some (Inr [LaunchNode (Some ''n.py'') [(Some ''x'', Some ''y'')],
                  LaunchNode None [(Some ''a'', Some ''b'')]],
             [''o/r/main.launch'', ''o/r/launch/sub.launch''])"
proof -
  let ?inc = "Element ''include'' [(''file'', ''$(find pkg)/launch/sub.launch'')] []"
  have a0: "drop (length ''o/r/readme.md'' - 7) ''o/r/readme.md'' \<noteq> ''.launch''" by simp
  note a = list_from_launch_resolves
    [where g = launch_github and fromstring = launch_fromstring
       and path_arg = "''o/r/readme.md''", THEN conjunct1, THEN mp, OF a0]
  have rs: "read_file launch_github ''o/r/launch/sub.launch'' = Some (Inr ''B'')"
    using read_file_sub_launch by simp
  have fb: "launch_fromstring ''B'' = Inr sub_launch"
    by (simp add: launch_fromstring_def table_fromstring_def)
  have fa: "launch_fromstring ''A'' = Inr main_launch"
    by (simp add: launch_fromstring_def table_fromstring_def)
  have hb: "drop (length ''o/r/launch/sub.launch'' - 7) ''o/r/launch/sub.launch'' = ''.launch''
        \<and> read_file launch_github ''o/r/launch/sub.launch'' = Some (Inr ''B'')
        \<and> str_split ''o/r/launch/sub.launch'' CHR ''/'' (Some 2) = [''o'', ''r'', ''launch/sub.launch'']
        \<and> launch_fromstring ''B'' = Inr sub_launch"
    using rs fb by (simp add: str_split_def)
  have nb: "\<forall>c \<in> set (children sub_launch). tag c \<noteq> ''include''"
    by (simp add: sub_launch_def)
  note b = list_from_launch_resolves
    [where g = launch_github and fromstring = launch_fromstring,
      THEN conjunct2, THEN conjunct1, THEN mp, OF hb, THEN conjunct1, THEN mp, OF nb]
  have b': "list_from_launch launch_github launch_fromstring ''o/r/launch/sub.launch'' =
       Some (Inr [LaunchNode (Some ''n.py'') [(Some ''x'', Some ''y'')],
                  LaunchNode None [(Some ''a'', Some ''b'')]],
             [''o/r/launch/sub.launch''])"
    using b by (simp add: sub_launch_def launch_node_of_def)
  have ha: "drop (length ''o/r/main.launch'' - 7) ''o/r/main.launch'' = ''.launch''
        \<and> read_file launch_github ''o/r/main.launch'' = Some (Inr ''A'')
        \<and> str_split ''o/r/main.launch'' CHR ''/'' (Some 2) = [''o'', ''r'', ''main.launch'']
        \<and> launch_fromstring ''A'' = Inr main_launch"
    using read_file_main_launch fa by (simp add: str_split_def)
  have cm: "children main_launch = [?inc]" by (simp add: main_launch_def)
  have sp: "str_split ''$(find pkg)/launch/sub.launch'' CHR ''/'' (Some 1)
       = [''$(find pkg)'', ''launch/sub.launch'']"
    by (simp add: str_split_def)
  have hi: "children main_launch = [?inc] \<and> tag ?inc = ''include''
        \<and> map_of (attrib ?inc) ''file'' = Some ''$(find pkg)/launch/sub.launch''
        \<and> str_split ''$(find pkg)/launch/sub.launch'' CHR ''/'' (Some 1)
            = [''$(find pkg)'', ''launch/sub.launch'']
        \<and> read_file launch_github (''o'' @ ''/'' @ ''r'' @ ''/'' @ ''launch/sub.launch'')
            = Some (Inr ''B'')
        \<and> launch_fromstring ''B'' = Inr sub_launch"
    using cm sp read_file_sub_launch fb by simp
  note c = list_from_launch_resolves
    [where g = launch_github and fromstring = launch_fromstring,
      THEN conjunct2, THEN conjunct1, THEN mp, OF ha, THEN conjunct2, rule_format, OF hi,
      THEN conjunct2, THEN conjunct1, THEN mp, OF nb]
  have c': "list_from_launch launch_github launch_fromstring ''o/r/main.launch'' =
       Some (Inr [LaunchNode (Some ''n.py'') [(Some ''x'', Some ''y'')],
                  LaunchNode None [(Some ''a'', Some ''b'')]],
             [''o/r/main.launch'', ''o/r/launch/sub.launch''])"
    using c by (simp add: sub_launch_def launch_node_of_def)
  from a0 a rs fb b' read_file_main_launch fa cm sp c' show ?thesis by (intro conjI)
qed

text \<open>
  The claim as written builds \<open>remap\<close> from the descendants of a child. A
  \<open>remap\<close> element that is itself a child of the root has no descendants, and yet
  its descriptor carries its own pair: \<open>node.iter("remap")\<close> starts at the node.
\<close>

theorem list_from_launch_top_level_remap_counterexample:
  "list_from_launch launch_github launch_fromstring ''o/r/remap.launch'' =
     Some (Inr [LaunchNode None [(Some ''a'', Some ''b'')]], [''o/r/remap.launch''])
   \<and> children remap_launch = [Element ''remap'' [(''from'', ''a''), (''to'', ''b'')] []]
   \<and> filter (\<lambda>e. tag e = ''remap'')
        (concat (map iter (children (Element ''remap'' [(''from'', ''a''), (''to'', ''b'')] []))))
       = []"
proof -
  have fc: "launch_fromstring ''C'' = Inr remap_launch"
    by (simp add: launch_fromstring_def table_fromstring_def)
  have "list_from_launch launch_github launch_fromstring ''o/r/remap.launch'' =
     Some (Inr [LaunchNode None [(Some ''a'', Some ''b'')]], [''o/r/remap.launch''])"
    by (simp add: list_from_launch_def read_file_remap_launch fc str_split_def remap_launch_def
        list_from_launch_loop.simps launch_node_of_def)
  then show ?thesis by (simp add: remap_launch_def)
qed

end
